theory Spec2Isabelle
  imports Complex_Main "HOL-Library.Word" "HOL-Library.Log_Nat" "HOL-Library.Signed_Division"
begin

section \<open>Receipt processor: data model\<close>

text \<open>
  Go strings are byte sequences; \<open>string\<close> (a list of 8-bit \<open>char\<close>) models them
  byte for byte, so \<open>length\<close> is Go's \<open>len\<close>. Go's \<open>int\<close> is taken as the 64-bit
  type of the platforms the service is built for, with wrap-around addition.
\<close>

record Item =
  ShortDescription :: string
  Price :: string

record Receipt =
  ID :: string
  Retailer :: string
  PurchaseDate :: string
  PurchaseTime :: string
  Items :: "Item list"
  Total :: string
  Points :: "64 word"

record ReceiptStore =
  Receipts :: "string \<rightharpoonup> Receipt"

definition byte :: "char \<Rightarrow> nat" where
  "byte c = of_char c"

definition digit :: "char \<Rightarrow> bool" where
  "digit c = (48 \<le> byte c \<and> byte c \<le> 57)"

section \<open>UTF-8 (package unicode/utf8)\<close>

definition RuneError :: nat where
  "RuneError = 0xFFFD"

text \<open>
  \<open>utf8.DecodeRuneInString\<close>: the first rune of the string and its width in bytes;
  an invalid or truncated encoding is \<open>RuneError\<close> of width 1.
\<close>

fun decodeRune :: "string \<Rightarrow> nat \<times> nat" where
  "decodeRune [] = (RuneError, 0)"
| "decodeRune (c0 # cs) =
     (let s0 = byte c0 in
      if s0 < 0x80 then (s0, 1)
      else if s0 < 0xC2 \<or> 0xF4 < s0 then (RuneError, 1)
      else
        let sz = (if s0 < 0xE0 then 2 else if s0 < 0xF0 then 3 else (4::nat));
            lo = (if s0 = 0xE0 then 0xA0 else if s0 = 0xF0 then 0x90 else 0x80);
            hi = (if s0 = 0xED then 0x9F else if s0 = 0xF4 then 0x8F else 0xBF)
        in
          if length cs + 1 < sz then (RuneError, 1)
          else
            let s1 = byte (cs ! 0) in
            if s1 < lo \<or> hi < s1 then (RuneError, 1)
            else if sz \<le> 2 then ((s0 mod 32) * 64 + s1 mod 64, 2)
            else
              let s2 = byte (cs ! 1) in
              if s2 < 0x80 \<or> 0xBF < s2 then (RuneError, 1)
              else if sz \<le> 3 then ((s0 mod 16) * 4096 + (s1 mod 64) * 64 + s2 mod 64, 3)
              else
                let s3 = byte (cs ! 2) in
                if s3 < 0x80 \<or> 0xBF < s3 then (RuneError, 1)
                else ((s0 mod 8) * 262144 + (s1 mod 64) * 4096 + (s2 mod 64) * 64
                      + s3 mod 64, 4))"

definition RuneStart :: "nat \<Rightarrow> bool" where
  "RuneStart b = (b < 0x80 \<or> 0xBF < b)"

text \<open>The backward scan of \<open>utf8.DecodeLastRuneInString\<close> for the start of the last rune.\<close>

function scanBack :: "string \<Rightarrow> int \<Rightarrow> int \<Rightarrow> int" where
  "scanBack s start lm =
     (if lm \<le> start
      then (if RuneStart (byte (s ! nat start)) then start else scanBack s (start - 1) lm)
      else start)"
  by pat_completeness auto
termination
  by (relation "measure (\<lambda>(s, start, lm). nat (start - lm + 1))") auto

declare scanBack.simps [simp del]

definition decodeLastRune :: "string \<Rightarrow> nat \<times> nat" where
  "decodeLastRune s =
     (let n = length s in
      if n = 0 then (RuneError, 0)
      else
        let r = byte (s ! (n - 1)) in
        if r < 0x80 then (r, 1)
        else
          let lm = (if n < 4 then 0 else int n - 4);
              start0 = scanBack s (int n - 2) lm;
              start = (if start0 < 0 then 0 else nat start0)
          in case decodeRune (drop start s) of
               (r', wid) \<Rightarrow> if start + wid \<noteq> n then (RuneError, 1) else (r', wid))"

text \<open>\<open>utf8.EncodeRune\<close>, which is also the conversion \<open>string(rune)\<close>.\<close>

definition encodeRune :: "nat \<Rightarrow> string" where
  "encodeRune r =
     (if r \<le> 0x7F then [char_of r]
      else if r \<le> 0x7FF then [char_of (0xC0 + r div 64), char_of (0x80 + r mod 64)]
      else if 0x10FFFF < r \<or> (0xD800 \<le> r \<and> r \<le> 0xDFFF)
        then [char_of (0xEF::nat), char_of (0xBF::nat), char_of (0xBD::nat)]
      else if r \<le> 0xFFFF
        then [char_of (0xE0 + r div 4096), char_of (0x80 + (r div 64) mod 64),
              char_of (0x80 + r mod 64)]
      else [char_of (0xF0 + r div 262144), char_of (0x80 + (r div 4096) mod 64),
            char_of (0x80 + (r div 64) mod 64), char_of (0x80 + r mod 64)])"

section \<open>Unicode classes (package unicode) and strings.TrimSpace\<close>

text \<open>\<open>unicode.IsSpace\<close>: the Latin-1 switch and the \<open>White_Space\<close> range table.\<close>

definition IsSpace :: "nat \<Rightarrow> bool" where
  "IsSpace r =
     (if r \<le> 0xFF
      then r \<in> {0x09, 0x0A, 0x0B, 0x0C, 0x0D, 0x20, 0x85, 0xA0}
      else r = 0x1680 \<or> (0x2000 \<le> r \<and> r \<le> 0x200A) \<or> r = 0x2028 \<or> r = 0x2029
           \<or> r = 0x202F \<or> r = 0x205F \<or> r = 0x3000)"

text \<open>\<open>strings.TrimLeftFunc(s, unicode.IsSpace)\<close>: drop leading runes that are spaces.\<close>

function TrimLeftSpace :: "string \<Rightarrow> string" where
  "TrimLeftSpace [] = []"
| "TrimLeftSpace (c # cs) =
     (case decodeRune (c # cs) of
        (r, wid) \<Rightarrow> if IsSpace r then TrimLeftSpace (drop wid (c # cs)) else c # cs)"
  by pat_completeness auto
termination
  apply (relation "measure length")
  subgoal by simp
  subgoal by (auto simp: Let_def split: if_splits)
  done

declare TrimLeftSpace.simps [simp del]

text \<open>
  \<open>strings.TrimRightFunc(s, unicode.IsSpace)\<close>: drop trailing runes, decoded backwards,
  that are spaces.
\<close>

function TrimRightSpace :: "string \<Rightarrow> string" where
  "TrimRightSpace s =
     (if s = [] then []
      else case decodeLastRune s of
             (r, wid) \<Rightarrow> if IsSpace r then TrimRightSpace (take (length s - wid) s) else s)"
  by pat_completeness auto
termination
proof (relation "measure length")
  show "wf (measure length)" by simp
next
  fix s :: string and r wid
  assume ne: "s \<noteq> []" and "(r, wid) = decodeLastRune s" and "IsSpace r"
  then have d: "decodeLastRune s = (r, wid)" by simp
  have le: "scanBack t st lm \<le> st" for t st lm
    by (induct t st lm rule: scanBack.induct) (subst scanBack.simps, force)
  from ne have pos: "0 < length s" by simp
  have "nat (scanBack s (int (length s) - 2) lm) < length s" for lm
    using le [of s "int (length s) - 2" lm] pos by linarith
  from this [of 0] this [of "int (length s) - 4"] pos have "1 \<le> wid"
    using d
    by (auto simp: decodeLastRune_def Let_def split: if_splits prod.splits)
  with ne show "(take (length s - wid) s, s) \<in> measure length"
    by (cases s) auto
qed

declare TrimRightSpace.simps [simp del]

text \<open>
  \<open>strings.TrimSpace\<close>. Its ASCII fast path strips the same bytes as the general
  path, so it is \<open>TrimRightFunc\<close> after \<open>TrimLeftFunc\<close>.
\<close>

definition TrimSpace :: "string \<Rightarrow> string" where
  "TrimSpace s = TrimRightSpace (TrimLeftSpace s)"

section \<open>float64 arithmetic\<close>

text \<open>
  A float64 is a rational (a finite value; the two zeros are one, since nothing below
  observes the sign of a zero), an infinity or NaN. Every rounding is IEEE 754
  round-to-nearest, ties to even, to 53 significant bits, with gradual underflow below
  \<open>2 powi - 1022\<close> and overflow to an infinity from \<open>2 powi 1024\<close>.
\<close>

datatype f64 = Fin rat | PInf | NInf | NaN

text \<open>The integer \<open>k\<close> with \<open>2 powi k \<le> x < 2 powi (k + 1)\<close>, for \<open>0 < x\<close>.\<close>

definition ilog2 :: "rat \<Rightarrow> int" where
  "ilog2 x =
     (case quotient_of x of
        (a, b) \<Rightarrow> let k = bitlen a - bitlen b in if 2 powi k \<le> x then k else k - 1)"

text \<open>Round to the nearest integer, a tie to the even one.\<close>

definition rne :: "rat \<Rightarrow> int" where
  "rne x =
     (let f = \<lfloor>x\<rfloor>; d = x - of_int f in
      if d < 1 / 2 then f else if 1 / 2 < d then f + 1 else if even f then f else f + 1)"

text \<open>
  A positive rational rounded to 53 significant bits; below \<open>2 powi - 1022\<close> the
  spacing stays \<open>2 powi - 1074\<close>.
\<close>

definition round53 :: "rat \<Rightarrow> rat" where
  "round53 x =
     (let e = max (ilog2 x - 52) (- 1074) in of_int (rne (x / 2 powi e)) * 2 powi e)"

definition f64_round :: "rat \<Rightarrow> f64" where
  "f64_round x =
     (if x = 0 then Fin 0
      else
        let y = round53 \<bar>x\<bar>
        in if 2 powi 1024 \<le> y then (if 0 < x then PInf else NInf) else Fin (sgn x * y))"

fun f64_mul :: "f64 \<Rightarrow> f64 \<Rightarrow> f64" where
  "f64_mul (Fin a) (Fin b) = f64_round (a * b)"
| "f64_mul NaN _ = NaN"
| "f64_mul _ NaN = NaN"
| "f64_mul (Fin a) PInf = (if a = 0 then NaN else if 0 < a then PInf else NInf)"
| "f64_mul (Fin a) NInf = (if a = 0 then NaN else if 0 < a then NInf else PInf)"
| "f64_mul PInf (Fin b) = (if b = 0 then NaN else if 0 < b then PInf else NInf)"
| "f64_mul NInf (Fin b) = (if b = 0 then NaN else if 0 < b then NInf else PInf)"
| "f64_mul PInf PInf = PInf"
| "f64_mul PInf NInf = NInf"
| "f64_mul NInf PInf = NInf"
| "f64_mul NInf NInf = PInf"

text \<open>\<open>math.Ceil\<close>.\<close>

fun Ceil :: "f64 \<Rightarrow> f64" where
  "Ceil (Fin x) = Fin (of_int \<lceil>x\<rceil>)"
| "Ceil v = v"

section \<open>What the source leaves to the platform and the library tables\<close>

text \<open>
  Parameters of the model, for the parts of the Go implementation that the source
  relies on and that are fixed outside it:
  \<^item> \<open>unicode_Letter\<close>, \<open>unicode_Digit\<close>: membership in the range tables
    \<open>unicode.Letter\<close> and \<open>unicode.Digit\<close>, consulted for runes above Latin-1;
  \<^item> \<open>float_to_int_unrep\<close>: the result of converting to \<open>int\<close> a float64 that
    \<open>int\<close> cannot represent (the language leaves it to the implementation);
  \<^item> \<open>ParseFloat_other\<close>: \<open>strconv.ParseFloat\<close> on a non-empty string that is not
    digits, a point and digits (signs, exponents, hexadecimal, infinities, NaN and
    syntax errors), \<open>None\<close> standing for a non-nil error.
  Every theorem below holds for every value of the parameters.
\<close>

record platform =
  unicode_Letter :: "nat \<Rightarrow> bool"
  unicode_Digit :: "nat \<Rightarrow> bool"
  float_to_int_unrep :: "f64 \<Rightarrow> 64 word"
  ParseFloat_other :: "string \<Rightarrow> f64 option"

text \<open>The conversion \<open>int(f)\<close>: the fraction is discarded.\<close>

fun f64_to_int :: "platform \<Rightarrow> f64 \<Rightarrow> 64 word" where
  "f64_to_int P (Fin x) =
     (let t = (if 0 \<le> x then \<lfloor>x\<rfloor> else \<lceil>x\<rceil>) in
      if - (2 ^ 63) \<le> t \<and> t < 2 ^ 63 then word_of_int t else float_to_int_unrep P (Fin x))"
| "f64_to_int P v = float_to_int_unrep P v"

text \<open>\<open>unicode.IsLetter\<close> and \<open>unicode.IsDigit\<close>: Latin-1 is decided in place.\<close>

definition IsLetter :: "platform \<Rightarrow> nat \<Rightarrow> bool" where
  "IsLetter P r =
     (if r \<le> 0xFF
      then (0x41 \<le> r \<and> r \<le> 0x5A) \<or> (0x61 \<le> r \<and> r \<le> 0x7A) \<or> r = 0xAA \<or> r = 0xB5
           \<or> r = 0xBA \<or> (0xC0 \<le> r \<and> r \<le> 0xD6) \<or> (0xD8 \<le> r \<and> r \<le> 0xF6) \<or> 0xF8 \<le> r
      else unicode_Letter P r)"

definition IsDigit :: "platform \<Rightarrow> nat \<Rightarrow> bool" where
  "IsDigit P r = (if r \<le> 0xFF then 0x30 \<le> r \<and> r \<le> 0x39 else unicode_Digit P r)"

section \<open>strconv.ParseFloat\<close>

definition digits_value :: "string \<Rightarrow> nat" where
  "digits_value ds = foldl (\<lambda>a c. 10 * a + (byte c - 48)) 0 ds"

text \<open>The exact value of a string of digits, a point and digits.\<close>

definition plain_decimal :: "string \<Rightarrow> rat option" where
  "plain_decimal s =
     (let ip = takeWhile digit s; rest = dropWhile digit s in
      case rest of
        [] \<Rightarrow> None
      | c # fp \<Rightarrow>
          if c = CHR ''.'' \<and> ip \<noteq> [] \<and> fp \<noteq> [] \<and> list_all digit fp
          then Some (of_nat (digits_value (ip @ fp)) / 10 ^ length fp)
          else None)"

text \<open>
  \<open>strconv.ParseFloat(s, 64)\<close>, \<open>None\<close> for a non-nil error: the empty string is a
  syntax error, a decimal is rounded to the nearest float64 and is a range error when
  that is an infinity.
\<close>

definition ParseFloat :: "platform \<Rightarrow> string \<Rightarrow> f64 option" where
  "ParseFloat P s =
     (if s = [] then None
      else case plain_decimal s of
             Some q \<Rightarrow> (case f64_round q of Fin v \<Rightarrow> Some (Fin v) | _ \<Rightarrow> None)
           | None \<Rightarrow> ParseFloat_other P s)"

section \<open>Package time: Parse with the layouts of the source\<close>

record Time =
  Year :: nat
  Month :: nat
  Day :: nat
  Hour :: nat
  Minute :: nat

definition isDigit :: "string \<Rightarrow> nat \<Rightarrow> bool" where
  "isDigit s i = (i < length s \<and> digit (s ! i))"

text \<open>\<open>getnum\<close>: a number of one or two digits, of exactly two when \<open>fixed\<close>.\<close>

definition getnum :: "string \<Rightarrow> bool \<Rightarrow> (nat \<times> string) option" where
  "getnum s fixed =
     (if \<not> isDigit s 0 then None
      else if \<not> isDigit s 1
        then (if fixed then None else Some (byte (s ! 0) - 48, drop 1 s))
      else Some ((byte (s ! 0) - 48) * 10 + (byte (s ! 1) - 48), drop 2 s))"

text \<open>\<open>skip\<close> with a prefix of one character that is not a space.\<close>

definition skip :: "string \<Rightarrow> char \<Rightarrow> string option" where
  "skip val c = (case val of [] \<Rightarrow> None | v # vs \<Rightarrow> if v = c then Some vs else None)"

text \<open>\<open>atoi\<close> on a string that starts with a digit (its sign branch is not reached).\<close>

definition atoi :: "string \<Rightarrow> nat option" where
  "atoi s = (if s \<noteq> [] \<and> list_all digit s then Some (digits_value s) else None)"

definition isLeap :: "nat \<Rightarrow> bool" where
  "isLeap year = (year mod 4 = 0 \<and> (year mod 100 \<noteq> 0 \<or> year mod 400 = 0))"

definition daysIn :: "nat \<Rightarrow> nat \<Rightarrow> nat" where
  "daysIn m year =
     (if m = 2 \<and> isLeap year then 29
      else [31, 28, 31, 30, 31, 30, 31, 31, 30, 31, 30, 31] ! (m - 1))"

text \<open>\<open>time.Parse("2006-01-02", val)\<close>, \<open>None\<close> for a non-nil error.\<close>

definition Parse_date :: "string \<Rightarrow> Time option" where
  "Parse_date val =
     (if length val < 4 \<or> \<not> isDigit val 0 then None
      else case atoi (take 4 val) of
        None \<Rightarrow> None
      | Some year \<Rightarrow>
         (case skip (drop 4 val) CHR ''-'' of
            None \<Rightarrow> None
          | Some v1 \<Rightarrow>
             (case getnum v1 True of
                None \<Rightarrow> None
              | Some (month, v2) \<Rightarrow>
                 if month \<le> 0 \<or> 12 < month then None
                 else
                   (case skip v2 CHR ''-'' of
                      None \<Rightarrow> None
                    | Some v3 \<Rightarrow>
                       (case getnum v3 True of
                          None \<Rightarrow> None
                        | Some (day, v4) \<Rightarrow>
                           if v4 \<noteq> [] then None
                           else if day < 1 \<or> daysIn month year < day then None
                           else Some \<lparr>Year = year, Month = month, Day = day,
                                      Hour = 0, Minute = 0\<rparr>)))))"

text \<open>
  \<open>time.Parse("15:04", val)\<close>: the hour is read by \<open>getnum\<close> without \<open>fixed\<close>, the
  minute with it; the date of the result is 1 January of year 0.
\<close>

definition Parse_clock :: "string \<Rightarrow> Time option" where
  "Parse_clock val =
     (case getnum val False of
        None \<Rightarrow> None
      | Some (hour, v1) \<Rightarrow>
         if 24 \<le> hour then None
         else
           (case skip v1 CHR '':'' of
              None \<Rightarrow> None
            | Some v2 \<Rightarrow>
               (case getnum v2 True of
                  None \<Rightarrow> None
                | Some (minute, v3) \<Rightarrow>
                   if 60 \<le> minute then None
                   else if v3 \<noteq> [] then None
                   else Some \<lparr>Year = 0, Month = 1, Day = 1, Hour = hour, Minute = minute\<rparr>)))"

section \<open>Validation errors and format checks (models/errors.go)\<close>

datatype ErrorCode = ErrInvalidInput | ErrMissingField | ErrInvalidFormat | ErrInvalidValue

record ValidationError =
  Code :: ErrorCode
  Message :: string
  Field :: string
  Value :: "string option"

definition NewValidationError :: "ErrorCode \<Rightarrow> string \<Rightarrow> ValidationError" where
  "NewValidationError code message =
     \<lparr>Code = code, Message = message, Field = [], Value = None\<rparr>"

definition WithField :: "ValidationError \<Rightarrow> string \<Rightarrow> ValidationError" where
  "WithField e field = e\<lparr>Field := field\<rparr>"

definition WithValue :: "ValidationError \<Rightarrow> string \<Rightarrow> ValidationError" where
  "WithValue e v = e\<lparr>Value := Some v\<rparr>"

definition NewMissingFieldError :: "string \<Rightarrow> ValidationError" where
  "NewMissingFieldError field =
     WithField (NewValidationError ErrMissingField ''missing required field'') field"

definition NewInvalidFormatError :: "string \<Rightarrow> string \<Rightarrow> ValidationError" where
  "NewInvalidFormatError field v =
     WithValue (WithField (NewValidationError ErrInvalidFormat ''invalid format'') field) v"

definition IsValidDateFormat :: "string \<Rightarrow> bool" where
  "IsValidDateFormat date = (Parse_date date \<noteq> None)"

definition IsValidTimeFormat :: "string \<Rightarrow> bool" where
  "IsValidTimeFormat timeStr = (Parse_clock timeStr \<noteq> None)"

text \<open>
  The pattern \<open>^\d+\.\d{2}$\<close>: \<open>\d\<close> is an ASCII digit and \<open>$\<close> the end of the text.
  The point is no digit, so \<open>\d+\<close> takes the whole leading run of digits.
\<close>

definition IsValidCurrencyFormat :: "string \<Rightarrow> bool" where
  "IsValidCurrencyFormat amount =
     (let ds = takeWhile digit amount; rest = dropWhile digit amount in
      ds \<noteq> [] \<and>
      (case rest of [p, c1, c2] \<Rightarrow> p = CHR ''.'' \<and> digit c1 \<and> digit c2 | _ \<Rightarrow> False))"

section \<open>validateReceipt (handlers/receipts.go)\<close>

text \<open>The conversion \<open>string(rune(i))\<close> of an index: the UTF-8 encoding of code point \<open>i\<close>.\<close>

definition string_rune :: "nat \<Rightarrow> string" where
  "string_rune i = encodeRune (i mod 2 ^ 32)"

fun validateItems :: "nat \<Rightarrow> Item list \<Rightarrow> ValidationError option" where
  "validateItems i [] = None"
| "validateItems i (item # rest) =
     (if ShortDescription item = []
        then Some (NewMissingFieldError (''items['' @ string_rune i @ ''].shortDescription''))
      else if Price item = []
        then Some (NewMissingFieldError (''items['' @ string_rune i @ ''].price''))
      else if \<not> IsValidCurrencyFormat (Price item)
        then Some (NewInvalidFormatError (''items['' @ string_rune i @ ''].price'') (Price item))
      else validateItems (i + 1) rest)"

text \<open>\<open>None\<close> is the nil error.\<close>

definition validateReceipt :: "Receipt \<Rightarrow> ValidationError option" where
  "validateReceipt receipt =
     (if Retailer receipt = [] then Some (NewMissingFieldError ''retailer'')
      else if PurchaseDate receipt = [] then Some (NewMissingFieldError ''purchaseDate'')
      else if PurchaseTime receipt = [] then Some (NewMissingFieldError ''purchaseTime'')
      else if Total receipt = [] then Some (NewMissingFieldError ''total'')
      else if length (Items receipt) = 0 then Some (NewMissingFieldError ''items'')
      else if \<not> IsValidDateFormat (PurchaseDate receipt)
        then Some (NewInvalidFormatError ''purchaseDate'' (PurchaseDate receipt))
      else if \<not> IsValidTimeFormat (PurchaseTime receipt)
        then Some (NewInvalidFormatError ''purchaseTime'' (PurchaseTime receipt))
      else if \<not> IsValidCurrencyFormat (Total receipt)
        then Some (NewInvalidFormatError ''total'' (Total receipt))
      else validateItems 0 (Items receipt))"

section \<open>The points engine (models/receipt.go)\<close>

function countAlphanumeric :: "platform \<Rightarrow> string \<Rightarrow> nat" where
  "countAlphanumeric P [] = 0"
| "countAlphanumeric P (c # cs) =
     (case decodeRune (c # cs) of
        (r, wid) \<Rightarrow>
          (if IsLetter P r \<or> IsDigit P r then 1 else 0)
          + countAlphanumeric P (drop wid (c # cs)))"
  by pat_completeness auto
termination
  apply (relation "measure (\<lambda>(P, s). length s)")
  subgoal by simp
  subgoal by (auto simp: Let_def split: if_splits)
  done

declare countAlphanumeric.simps [simp del]

text \<open>The pattern \<open>^\d+\.00\<close>, which is not anchored at the end.\<close>

definition isRoundDollarAmount :: "string \<Rightarrow> bool" where
  "isRoundDollarAmount total' =
     (let ds = takeWhile digit total'; rest = dropWhile digit total' in
      ds \<noteq> [] \<and> take 3 rest = ''.00'')"

definition isMultipleOf25Cents :: "platform \<Rightarrow> string \<Rightarrow> bool" where
  "isMultipleOf25Cents P total' =
     (case ParseFloat P total' of
        None \<Rightarrow> False
      | Some v \<Rightarrow>
          let cents = f64_to_int P (f64_mul v (Fin 100)) in sint cents smod 25 = 0)"

definition isDayOdd :: "string \<Rightarrow> bool" where
  "isDayOdd purchaseDate =
     (case Parse_date purchaseDate of
        None \<Rightarrow> False
      | Some t \<Rightarrow> let day = Day t in day mod 2 = 1)"

definition isTimeBetween2And4PM :: "string \<Rightarrow> bool" where
  "isTimeBetween2And4PM purchaseTime =
     (case Parse_clock purchaseTime of
        None \<Rightarrow> False
      | Some t \<Rightarrow>
          let hour = Hour t; minute = Minute t; timeInMinutes = hour * 60 + minute
          in 840 < timeInMinutes \<and> timeInMinutes < 960)"

text \<open>The loop of rule 5 over the items, with the running total.\<close>

fun itemsLoop :: "platform \<Rightarrow> Item list \<Rightarrow> 64 word \<Rightarrow> 64 word" where
  "itemsLoop P [] points = points"
| "itemsLoop P (item # rest) points =
     (let trimmedDesc = TrimSpace (ShortDescription item) in
      if length trimmedDesc mod 3 = 0 \<and> 0 < length trimmedDesc
      then
        (case ParseFloat P (Price item) of
           Some price \<Rightarrow>
             (let pointsForItem = f64_to_int P (Ceil (f64_mul price (f64_round (1 / 5))))
              in itemsLoop P rest (points + pointsForItem))
         | None \<Rightarrow> itemsLoop P rest points)
      else itemsLoop P rest points)"

definition CalculatePoints :: "platform \<Rightarrow> Receipt \<Rightarrow> 64 word" where
  "CalculatePoints P receipt =
     (let points = 0;
          points = points + word_of_nat (countAlphanumeric P (Retailer receipt));
          points = (if isRoundDollarAmount (Total receipt) then points + 50 else points);
          points = (if isMultipleOf25Cents P (Total receipt) then points + 25 else points);
          points = points + word_of_nat (length (Items receipt) div 2 * 5);
          points = itemsLoop P (Items receipt) points;
          points = (if isDayOdd (PurchaseDate receipt) then points + 6 else points);
          points = (if isTimeBetween2And4PM (PurchaseTime receipt) then points + 10 else points)
      in points)"

text \<open>What each rule adds to the running total.\<close>

definition R1 :: "platform \<Rightarrow> Receipt \<Rightarrow> 64 word" where
  "R1 P receipt = word_of_nat (countAlphanumeric P (Retailer receipt))"

definition R2 :: "Receipt \<Rightarrow> 64 word" where
  "R2 receipt = (if isRoundDollarAmount (Total receipt) then 50 else 0)"

definition R3 :: "platform \<Rightarrow> Receipt \<Rightarrow> 64 word" where
  "R3 P receipt = (if isMultipleOf25Cents P (Total receipt) then 25 else 0)"

definition R4 :: "Receipt \<Rightarrow> 64 word" where
  "R4 receipt = word_of_nat (length (Items receipt) div 2 * 5)"

definition R5 :: "platform \<Rightarrow> Item \<Rightarrow> 64 word" where
  "R5 P item =
     (let trimmedDesc = TrimSpace (ShortDescription item) in
      if length trimmedDesc mod 3 = 0 \<and> 0 < length trimmedDesc
      then
        (case ParseFloat P (Price item) of
           Some price \<Rightarrow> f64_to_int P (Ceil (f64_mul price (f64_round (1 / 5))))
         | None \<Rightarrow> 0)
      else 0)"

definition R6 :: "Receipt \<Rightarrow> 64 word" where
  "R6 receipt = (if isDayOdd (PurchaseDate receipt) then 6 else 0)"

definition R7 :: "Receipt \<Rightarrow> 64 word" where
  "R7 receipt = (if isTimeBetween2And4PM (PurchaseTime receipt) then 10 else 0)"

section \<open>The receipt store and the two handlers\<close>

definition NewReceiptStore :: ReceiptStore where
  "NewReceiptStore = \<lparr>Receipts = Map.empty\<rparr>"

text \<open>
  \<open>AddReceipt\<close>; \<open>uuid\<close> is the string that \<open>uuid.New().String()\<close> returns in this
  call. The result is the updated store and the identifier.
\<close>

definition AddReceipt :: "string \<Rightarrow> ReceiptStore \<Rightarrow> Receipt \<Rightarrow> ReceiptStore \<times> string" where
  "AddReceipt uuid rs receipt =
     (let id' = uuid; receipt' = receipt\<lparr>ID := id'\<rparr>
      in (rs\<lparr>Receipts := (Receipts rs)(id' \<mapsto> receipt')\<rparr>, id'))"

text \<open>\<open>GetReceipt\<close>: \<open>Some receipt\<close> for \<open>(receipt, true)\<close>, \<open>None\<close> for not found.\<close>

definition GetReceipt :: "ReceiptStore \<Rightarrow> string \<Rightarrow> Receipt option" where
  "GetReceipt rs id' = Receipts rs id'"

text \<open>
  The handlers after JSON decoding and before JSON encoding: \<open>ProcessReceipt\<close> answers a
  validation error (status 400) or the identifier; \<open>GetPoints\<close> answers the points or
  not found (status 404).
\<close>

definition ProcessReceipt ::
    "platform \<Rightarrow> string \<Rightarrow> ReceiptStore \<Rightarrow> Receipt \<Rightarrow> ReceiptStore \<times> (ValidationError + string)" where
  "ProcessReceipt P uuid store receipt =
     (case validateReceipt receipt of
        Some err \<Rightarrow> (store, Inl err)
      | None \<Rightarrow>
          (let points = CalculatePoints P receipt;
               receipt' = receipt\<lparr>Points := points\<rparr>
           in case AddReceipt uuid store receipt' of (store', id') \<Rightarrow> (store', Inr id')))"

definition GetPoints :: "ReceiptStore \<Rightarrow> string \<Rightarrow> 64 word option" where
  "GetPoints store id' = (case GetReceipt store id' of None \<Rightarrow> None | Some receipt \<Rightarrow> Some (Points receipt))"

section \<open>Notions of the specification, and example inputs\<close>

text \<open>The characters of a string after its first decimal point.\<close>

definition fractional_part :: "string \<Rightarrow> string" where
  "fractional_part s = drop 1 (dropWhile (\<lambda>c. c \<noteq> CHR ''.'') s)"

text \<open>The amount in cents that a currency string denotes: the number its digits spell.\<close>

definition cents_of :: "string \<Rightarrow> nat" where
  "cents_of s = digits_value (filter digit s)"

text \<open>A time of day written \<open>HH:MM\<close>.\<close>

definition two_digits :: "nat \<Rightarrow> string" where
  "two_digits n = [char_of (48 + n div 10), char_of (48 + n mod 10)]"

definition clock_string :: "nat \<Rightarrow> nat \<Rightarrow> string" where
  "clock_string h m = two_digits h @ '':'' @ two_digits m"

text \<open>A time of day before 10:00 written \<open>H:MM\<close>, the hour with one digit.\<close>

definition short_clock_string :: "nat \<Rightarrow> nat \<Rightarrow> string" where
  "short_clock_string h m = char_of (48 + h) # CHR '':'' # two_digits m"

text \<open>The UTF-8 encoding of a sequence of code points.\<close>

definition utf8 :: "nat list \<Rightarrow> string" where
  "utf8 cps = concat (map encodeRune cps)"

definition scalar_value :: "nat \<Rightarrow> bool" where
  "scalar_value r = (r \<le> 0x10FFFF \<and> \<not> (0xD800 \<le> r \<and> r \<le> 0xDFFF))"

text \<open>The ASCII white space: tab, line feed, vertical tab, form feed, carriage return, space.\<close>

definition white_space :: "char \<Rightarrow> bool" where
  "white_space c = (byte c \<in> {0x09, 0x0A, 0x0B, 0x0C, 0x0D, 0x20})"

text \<open>
  What rule 5 adds for an item according to the specification: the ceiling of a fifth of
  the price, that is of the cents over 500, when the trimmed description has a length in
  bytes that is positive and a multiple of 3, and 0 otherwise.
\<close>

definition rule5_spec :: "Item \<Rightarrow> int" where
  "rule5_spec item =
     (let d = TrimSpace (ShortDescription item) in
      if length d mod 3 = 0 \<and> 0 < length d
      then \<lceil>(of_nat (cents_of (Price item)) :: rat) / 500\<rceil> else 0)"

text \<open>The receipt of the end-to-end scenario of the specification.\<close>

definition target_receipt :: Receipt where
  "target_receipt =
     \<lparr>ID = [], Retailer = ''Target'', PurchaseDate = ''2022-01-01'', PurchaseTime = ''13:01'',
      Items = [\<lparr>ShortDescription = ''Mountain Dew 12PK'', Price = ''6.49''\<rparr>,
               \<lparr>ShortDescription = ''Emils Cheese Pizza'', Price = ''12.25''\<rparr>,
               \<lparr>ShortDescription = ''Knorr Creamy Chicken'', Price = ''1.26''\<rparr>,
               \<lparr>ShortDescription = ''Doritos Nacho Cheese'', Price = ''3.35''\<rparr>,
               \<lparr>ShortDescription = ''   Klarbrunn 12-PK 12 FL OZ  '', Price = ''12.00''\<rparr>],
      Total = ''35.35'', Points = 0\<rparr>"

text \<open>A receipt that passes validation and holds two items of 40 quintillion each.\<close>

definition overflow_receipt :: Receipt where
  "overflow_receipt =
     \<lparr>ID = [], Retailer = ''Target'', PurchaseDate = ''2022-01-01'', PurchaseTime = ''13:01'',
      Items = [\<lparr>ShortDescription = ''XYZ'', Price = ''40000000000000000000.00''\<rparr>,
               \<lparr>ShortDescription = ''XYZ'', Price = ''40000000000000000000.00''\<rparr>],
      Total = ''35.35'', Points = 0\<rparr>"

text \<open>
  A receipt that does not pass validation: the date and the time are in other formats,
  the total and one price are missing.
\<close>

definition unparsable_receipt :: Receipt where
  "unparsable_receipt =
     \<lparr>ID = [], Retailer = ''M&M Corner Market'', PurchaseDate = ''01/01/2022'',
      PurchaseTime = ''2:33pm'',
      Items = [\<lparr>ShortDescription = ''XYZ'', Price = []\<rparr>,
               \<lparr>ShortDescription = ''Gatorade'', Price = ''2.25''\<rparr>],
      Total = [], Points = 0\<rparr>"

text \<open>
  The checks of validation as a list, in the order of the specification: each a
  condition that fails the receipt and the error it reports. The first failing one wins.
\<close>

definition item_checks :: "nat \<Rightarrow> Item \<Rightarrow> (bool \<times> ValidationError) list" where
  "item_checks i item =
     [(ShortDescription item = [],
         NewMissingFieldError (''items['' @ string_rune i @ ''].shortDescription'')),
      (Price item = [], NewMissingFieldError (''items['' @ string_rune i @ ''].price'')),
      (\<not> IsValidCurrencyFormat (Price item),
         NewInvalidFormatError (''items['' @ string_rune i @ ''].price'') (Price item))]"

definition receipt_checks :: "Receipt \<Rightarrow> (bool \<times> ValidationError) list" where
  "receipt_checks r =
     [(Retailer r = [], NewMissingFieldError ''retailer''),
      (PurchaseDate r = [], NewMissingFieldError ''purchaseDate''),
      (PurchaseTime r = [], NewMissingFieldError ''purchaseTime''),
      (Total r = [], NewMissingFieldError ''total''),
      (Items r = [], NewMissingFieldError ''items''),
      (\<not> IsValidDateFormat (PurchaseDate r),
         NewInvalidFormatError ''purchaseDate'' (PurchaseDate r)),
      (\<not> IsValidTimeFormat (PurchaseTime r),
         NewInvalidFormatError ''purchaseTime'' (PurchaseTime r)),
      (\<not> IsValidCurrencyFormat (Total r), NewInvalidFormatError ''total'' (Total r))]
     @ concat (map (\<lambda>(i, item). item_checks i item) (enumerate 0 (Items r)))"

definition first_failure :: "(bool \<times> ValidationError) list \<Rightarrow> ValidationError option" where
  "first_failure checks = map_option snd (find fst checks)"

text \<open>A year written with four digits, and a calendar date written \<open>YYYY-MM-DD\<close>.\<close>

definition four_digits :: "nat \<Rightarrow> string" where
  "four_digits n = two_digits (n div 100) @ two_digits (n mod 100)"

definition date_string :: "nat \<Rightarrow> nat \<Rightarrow> nat \<Rightarrow> string" where
  "date_string y m d = four_digits y @ ''-'' @ two_digits m @ ''-'' @ two_digits d"

section \<open>Facts about float64 rounding\<close>

lemma floor_rat_numeral [simp]: "\<lfloor>numeral a / numeral b :: rat\<rfloor> = numeral a div numeral b"
  using floor_divide_of_int_eq [where ?'a = rat, of "numeral a" "numeral b"] by simp

lemma ceiling_rat_numeral [simp]: "\<lceil>numeral a / numeral b :: rat\<rceil> = - (- numeral a div numeral b)"
  using floor_divide_of_int_eq [where ?'a = rat, of "- numeral a" "numeral b"]
  by (simp add: ceiling_def)

lemma of_int_less_powi:
  assumes "0 \<le> n" and "a < 2 ^ nat n"
  shows "(of_int a :: rat) < 2 powi n"
proof -
  have "(of_int a :: rat) < of_int (2 ^ nat n)" using assms(2) by (simp only: of_int_less_iff)
  also have "\<dots> = 2 powi n" using assms(1) by (simp add: power_int_def)
  finally show ?thesis .
qed

lemma powi_le_of_int:
  assumes "0 \<le> n" and "2 ^ nat n \<le> a"
  shows "2 powi n \<le> (of_int a :: rat)"
proof -
  have "(2::rat) powi n = of_int (2 ^ nat n)" using assms(1) by (simp add: power_int_def)
  also have "\<dots> \<le> of_int a" using assms(2) by (simp only: of_int_le_iff)
  finally show ?thesis .
qed

lemma ilog2_bounds:
  assumes "0 < x"
  shows "2 powi (ilog2 x) \<le> x \<and> x < 2 powi (ilog2 x + 1)"
proof -
  obtain a b where q: "quotient_of x = (a, b)" by (cases "quotient_of x")
  have b: "0 < b" using q by (rule quotient_of_denom_pos)
  have x: "x = of_int a / of_int b" using q by (rule quotient_of_div)
  have a: "0 < a" using assms b x by (simp add: zero_less_divide_iff)
  define la where "la = bitlen a"
  define lb where "lb = bitlen b"
  have la1: "1 \<le> la" using a by (simp add: la_def bitlen_alt_def)
  have lb1: "1 \<le> lb" using b by (simp add: lb_def bitlen_alt_def)
  have A: "2 powi (la - 1) \<le> (of_int a :: rat)" "(of_int a :: rat) < 2 powi la"
    using bitlen_bounds [OF a] la1 by (auto simp: la_def intro!: of_int_less_powi powi_le_of_int)
  have B: "2 powi (lb - 1) \<le> (of_int b :: rat)" "(of_int b :: rat) < 2 powi lb"
    using bitlen_bounds [OF b] lb1 by (auto simp: lb_def intro!: of_int_less_powi powi_le_of_int)
  have bpos: "(0::rat) < of_int b" using b by simp
  have up: "x < 2 powi (la - lb + 1)"
  proof -
    have "x * of_int b = of_int a" using x bpos by simp
    have "of_int a < 2 powi (la - lb + 1) * (2 powi (lb - 1) :: rat)"
      using A(2) by (simp add: power_int_add [symmetric])
    also have "\<dots> \<le> 2 powi (la - lb + 1) * of_int b"
      using B(1) by (simp add: mult_left_mono)
    finally show ?thesis using bpos x by (simp add: pos_divide_less_eq)
  qed
  have lo: "2 powi (la - lb - 1) \<le> x"
  proof -
    have "2 powi (la - lb - 1) * (of_int b :: rat) \<le> 2 powi (la - lb - 1) * 2 powi lb"
      using B(2) by (simp add: mult_left_mono)
    also have "\<dots> = 2 powi (la - 1)" by (simp add: power_int_add [symmetric])
    also have "\<dots> \<le> of_int a" using A(1) .
    finally show ?thesis using bpos x by (simp add: pos_le_divide_eq)
  qed
  show ?thesis
    using up lo q by (auto simp: ilog2_def Let_def la_def lb_def not_le)
qed

lemma powi2_mono: "m \<le> n \<Longrightarrow> (2::rat) powi m \<le> 2 powi n"
  by (rule power_int_increasing) simp_all

lemma ilog2_unique:
  assumes "0 < x" and "2 powi k \<le> x" and "x < 2 powi (k + 1)"
  shows "ilog2 x = k"
proof (rule ccontr)
  assume ne: "ilog2 x \<noteq> k"
  note b = ilog2_bounds [OF assms(1)]
  show False
  proof (cases "ilog2 x < k")
    case True
    then have "(2::rat) powi (ilog2 x + 1) \<le> 2 powi k" by (intro powi2_mono) simp
    with b assms(2) show False by simp
  next
    case False
    with ne have "k + 1 \<le> ilog2 x" by simp
    then have "(2::rat) powi (k + 1) \<le> 2 powi (ilog2 x)" by (rule powi2_mono)
    with b assms(3) show False by simp
  qed
qed

lemma rne_of_int_add:
  assumes "0 \<le> f" and "f < 1 / 2"
  shows "rne (of_int m + f) = m"
proof -
  have "\<lfloor>of_int m + f\<rfloor> = m" using assms by (intro floor_unique) auto
  then show ?thesis using assms by (simp add: rne_def Let_def)
qed

lemma rne_of_int [simp]: "rne (of_int m) = m"
  using rne_of_int_add [of 0 m] by simp

lemma rne_floor_bounds: "\<lfloor>x\<rfloor> \<le> rne x \<and> rne x \<le> \<lfloor>x\<rfloor> + 1"
  by (simp add: rne_def Let_def)

lemma rne_mono:
  assumes "x \<le> y"
  shows "rne x \<le> rne y"
proof (cases "\<lfloor>x\<rfloor> = \<lfloor>y\<rfloor>")
  case True
  with assms show ?thesis by (auto simp: rne_def Let_def)
next
  case False
  with assms have "\<lfloor>x\<rfloor> + 1 \<le> \<lfloor>y\<rfloor>" using floor_mono [OF assms] by linarith
  with rne_floor_bounds [of x] rne_floor_bounds [of y] show ?thesis by linarith
qed

lemma powi2_pos [simp]: "(0::rat) < 2 powi n"
  by (simp add: zero_less_power_int)

lemma powi2_less_cancel: "(2::rat) powi m < 2 powi n \<Longrightarrow> m < n"
  using powi2_mono [of n m] by (cases "m < n") auto

lemma ilog2_less:
  assumes "0 < x" and "x < 2 powi n"
  shows "ilog2 x < n"
proof -
  have "2 powi (ilog2 x) \<le> x" using ilog2_bounds [OF assms(1)] by simp
  with assms(2) have "(2::rat) powi (ilog2 x) < 2 powi n" by simp
  then show ?thesis by (rule powi2_less_cancel)
qed

lemma ilog2_mono:
  assumes "0 < x" and "x \<le> y"
  shows "ilog2 x \<le> ilog2 y"
proof -
  have "0 < y" using assms by simp
  then have "y < 2 powi (ilog2 y + 1)" using ilog2_bounds by simp
  with assms have "ilog2 x < ilog2 y + 1" by (intro ilog2_less) auto
  then show ?thesis by simp
qed

lemma round53_exact:
  assumes n: "0 < n" "n < 2 ^ 53" and t: "- 1074 \<le> t"
  shows "round53 (of_int n * 2 powi t) = of_int n * 2 powi t"
proof -
  define x :: rat where "x = of_int n * 2 powi t"
  have xpos: "0 < x" using n by (simp add: x_def)
  have "(of_int n :: rat) < of_int (2 ^ 53)" using n(2) by (simp only: of_int_less_iff)
  then have "(of_int n :: rat) < 2 powi 53" by simp
  then have "x < 2 powi 53 * 2 powi t" by (simp add: x_def)
  then have "x < 2 powi (53 + t)" by (simp add: power_int_add)
  then have "ilog2 x < 53 + t" using xpos by (intro ilog2_less)
  define e where "e = max (ilog2 x - 52) (- 1074)"
  have e: "e \<le> t" using \<open>ilog2 x < 53 + t\<close> t by (simp add: e_def)
  have p: "(of_int (2 ^ nat (t - e)) :: rat) = 2 powi (t - e)"
    using e by (simp add: power_int_def)
  have "x / 2 powi e = of_int n * 2 powi (t - e)"
    by (simp add: x_def power_int_diff)
  also have "\<dots> = of_int (n * 2 ^ nat (t - e))" by (simp only: of_int_mult p)
  finally have "rne (x / 2 powi e) = n * 2 ^ nat (t - e)" by (simp only: rne_of_int)
  then have "(of_int (rne (x / 2 powi e)) :: rat) = of_int n * 2 powi (t - e)"
    by (simp only: of_int_mult p)
  then have "of_int (rne (x / 2 powi e)) * 2 powi e = of_int n * (2 powi (t - e) * (2::rat) powi e)"
    by simp
  also have "\<dots> = x" by (simp add: x_def power_int_add [symmetric])
  finally show ?thesis by (simp add: round53_def Let_def e_def x_def)
qed

lemma round53_mono:
  assumes "0 < x" and "x \<le> y"
  shows "round53 x \<le> round53 y"
proof -
  define ex where "ex = max (ilog2 x - 52) (- 1074)"
  define ey where "ey = max (ilog2 y - 52) (- 1074)"
  have ypos: "0 < y" using assms by simp
  have le: "ex \<le> ey" using ilog2_mono [OF assms] by (simp add: ex_def ey_def)
  have rx: "round53 x = of_int (rne (x / 2 powi ex)) * 2 powi ex"
    by (simp add: round53_def Let_def ex_def)
  have ry: "round53 y = of_int (rne (y / 2 powi ey)) * 2 powi ey"
    by (simp add: round53_def Let_def ey_def)
  show ?thesis
  proof (cases "ex = ey")
    case True
    have "x / 2 powi ey \<le> y / 2 powi ey" using assms(2) by (simp add: divide_right_mono)
    then have "rne (x / 2 powi ey) \<le> rne (y / 2 powi ey)" by (rule rne_mono)
    then have "(of_int (rne (x / 2 powi ey)) :: rat) \<le> of_int (rne (y / 2 powi ey))" by simp
    then show ?thesis unfolding rx ry True by (simp add: mult_right_mono)
  next
    case False
    with le have lt: "ex + 1 \<le> ey" by simp
    then have ey: "ey = ilog2 y - 52" by (auto simp: ey_def ex_def)
    have "x < 2 powi (ilog2 x + 1)" using ilog2_bounds [OF assms(1)] by simp
    also have "\<dots> \<le> 2 powi (53 + ex)" by (rule powi2_mono) (simp add: ex_def)
    finally have "x / 2 powi ex < 2 powi (53 + ex) / 2 powi ex" by (simp add: divide_strict_right_mono)
    then have "x / 2 powi ex \<le> of_int (2 ^ 53)" by (simp add: power_int_add)
    then have "rne (x / 2 powi ex) \<le> rne (of_int (2 ^ 53))" by (rule rne_mono)
    then have "rne (x / 2 powi ex) \<le> 2 ^ 53" by (simp only: rne_of_int)
    then have "(of_int (rne (x / 2 powi ex)) :: rat) \<le> of_int (2 ^ 53)" by (simp only: of_int_le_iff)
    then have "round53 x \<le> 2 powi 53 * 2 powi ex" unfolding rx by (simp add: mult_right_mono)
    also have "\<dots> = 2 powi (53 + ex)" by (simp add: power_int_add)
    also have "\<dots> \<le> 2 powi (52 + ey)" using lt by (intro powi2_mono) simp
    finally have up: "round53 x \<le> 2 powi (52 + ey)" .
    have "2 powi (ilog2 y) \<le> y" using ilog2_bounds [OF ypos] by simp
    then have "2 powi (ilog2 y) / 2 powi ey \<le> y / 2 powi ey" by (simp add: divide_right_mono)
    then have "of_int (2 ^ 52) \<le> y / 2 powi ey" by (simp add: ey power_int_diff [symmetric])
    then have "rne (of_int (2 ^ 52)) \<le> rne (y / 2 powi ey)" by (rule rne_mono)
    then have "2 ^ 52 \<le> rne (y / 2 powi ey)" by (simp only: rne_of_int)
    then have "(of_int (2 ^ 52) :: rat) \<le> of_int (rne (y / 2 powi ey))" by (simp only: of_int_le_iff)
    then have "2 powi 52 * 2 powi ey \<le> round53 y" unfolding ry by (simp add: mult_right_mono)
    then have "2 powi (52 + ey) \<le> round53 y" by (simp add: power_int_add)
    with up show ?thesis by simp
  qed
qed

lemma round53_eval:
  assumes "0 < x" and "2 powi k \<le> x" and "x < 2 powi (k + 1)"
  shows "round53 x = of_int (rne (x / 2 powi (max (k - 52) (- 1074)))) * 2 powi (max (k - 52) (- 1074))"
  using ilog2_unique [OF assms] by (simp add: round53_def Let_def)

lemma f64_round_pos:
  assumes "0 < x" and "round53 x < 2 powi 1024"
  shows "f64_round x = Fin (round53 x)"
  using assms by (simp add: f64_round_def Let_def)

lemma round53_bracket:
  assumes x: "0 < x"
    and lo: "of_int a * 2 powi t \<le> x" and a: "0 < a" "a < 2 ^ 53" and t: "- 1074 \<le> t"
    and hi: "x \<le> of_int b * 2 powi u" and b: "0 < b" "b < 2 ^ 53" and u: "- 1074 \<le> u"
  shows "of_int a * 2 powi t \<le> round53 x \<and> round53 x \<le> of_int b * 2 powi u"
proof -
  have "0 < of_int a * (2::rat) powi t" using a by simp
  then have "round53 (of_int a * 2 powi t) \<le> round53 x" using lo by (rule round53_mono)
  moreover have "round53 x \<le> round53 (of_int b * 2 powi u)" using x hi by (rule round53_mono)
  ultimately show ?thesis
    using round53_exact [OF a t] round53_exact [OF b u] by simp
qed

lemma ilog2_of_int_nonneg:
  assumes "0 < k"
  shows "0 \<le> ilog2 (of_int k)"
proof -
  have "ilog2 (1::rat) \<le> ilog2 (of_int k)" using assms by (intro ilog2_mono) auto
  moreover have "ilog2 (1::rat) = 0" by (rule ilog2_unique) simp_all
  ultimately show ?thesis by simp
qed

lemma round53_int_plus_small:
  assumes k: "0 < k" "k < 2 ^ 52"
    and d: "0 \<le> d" "d < 2 powi (ilog2 (of_int k) - 53)"
  shows "round53 (of_int k + d) = of_int k"
proof -
  define L where "L = ilog2 (of_int k :: rat)"
  have kpos: "(0::rat) < of_int k" using k by simp
  have L0: "0 \<le> L" unfolding L_def using k(1) by (rule ilog2_of_int_nonneg)
  have "(of_int k :: rat) < of_int (2 ^ 52)" using k(2) by (simp only: of_int_less_iff)
  then have "(of_int k :: rat) < 2 powi 52" by simp
  then have L51: "L < 52" unfolding L_def using kpos by (intro ilog2_less)
  have lo: "2 powi L \<le> (of_int k :: rat)" and up: "(of_int k :: rat) < 2 powi (L + 1)"
    using ilog2_bounds [OF kpos] by (simp_all add: L_def)
  have p1: "(2::rat) powi (L + 1) = of_int (2 ^ nat (L + 1))" using L0 by (simp add: power_int_def)
  from up have "k < 2 ^ nat (L + 1)" unfolding p1 by (simp only: of_int_less_iff)
  then have "k + 1 \<le> 2 ^ nat (L + 1)" by simp
  then have "(of_int (k + 1) :: rat) \<le> of_int (2 ^ nat (L + 1))" by (simp only: of_int_le_iff)
  then have k1: "(of_int k :: rat) + 1 \<le> 2 powi (L + 1)" unfolding p1 by simp
  have "(2::rat) powi (L - 53) \<le> 2 powi 0" by (rule powi2_mono) (use L51 in simp)
  then have d1: "d < 1" using d(2) by (simp add: L_def)
  define x where "x = of_int k + d"
  have xpos: "0 < x" using kpos d(1) by (simp add: x_def)
  have "ilog2 x = L"
    using xpos lo up d(1) d1 k1 by (intro ilog2_unique) (auto simp: x_def)
  then have e: "max (ilog2 x - 52) (- 1074) = L - 52" using L0 by simp
  have p2: "(2::rat) powi (52 - L) = of_int (2 ^ nat (52 - L))" using L51 by (simp add: power_int_def)
  define f where "f = d * 2 powi (52 - L)"
  have f0: "0 \<le> f" using d(1) by (simp add: f_def)
  have "f < 2 powi (L - 53) * 2 powi (52 - L)"
    unfolding f_def using d(2) by (simp add: L_def)
  also have "\<dots> = 2 powi (- 1)" by (simp add: power_int_add [symmetric])
  finally have f1: "f < 1 / 2" by simp
  have "x / 2 powi (L - 52) = x * 2 powi (52 - L)"
    using power_int_minus [of "2::rat" "L - 52"] by (simp add: field_simps)
  also have "\<dots> = of_int k * 2 powi (52 - L) + f" by (simp add: x_def f_def algebra_simps)
  also have "\<dots> = of_int (k * 2 ^ nat (52 - L)) + f" by (simp only: of_int_mult p2)
  finally have "rne (x / 2 powi (L - 52)) = k * 2 ^ nat (52 - L)"
    by (simp only: rne_of_int_add [OF f0 f1])
  then have "round53 x = of_int (k * 2 ^ nat (52 - L)) * 2 powi (L - 52)"
    by (simp add: round53_def Let_def e)
  also have "\<dots> = of_int k * (2 powi (52 - L) * 2 powi (L - 52))"
    by (simp only: of_int_mult p2 mult.assoc)
  also have "\<dots> = of_int k" by (simp add: power_int_add [symmetric])
  finally show ?thesis by (simp add: x_def)
qed

lemma round53_fifth: "round53 (1 / 5) = 3602879701896397 / 2 ^ 54"
  by (simp add: round53_eval [where k = "- 3"] rne_def Let_def)

lemma f64_round_fifth: "f64_round (1 / 5) = Fin (3602879701896397 / 2 ^ 54)"
  by (simp add: f64_round_pos round53_fifth)

lemma f64_to_int_of_int:
  "0 \<le> c \<Longrightarrow> c < 2 ^ 63 \<Longrightarrow> f64_to_int P (Fin (of_int c)) = word_of_int c"
  by simp

lemma round53_price:
  fixes N :: nat
  assumes N: "0 < N" "N < 10 ^ 15"
  shows "of_nat N / 100 - 1 / 256 \<le> round53 (of_nat N / 100)
         \<and> round53 (of_nat N / 100) \<le> of_nat N / 100 + 1 / 256"
proof -
  define p :: rat where "p = of_nat N / 100"
  define a where "a = \<lfloor>p * 256\<rfloor>"
  have N1: "(1::rat) \<le> of_nat N" using N(1) by (simp add: Suc_leI)
  have "(of_nat N :: rat) < of_nat (10 ^ 15)" using N(2) by (simp only: of_nat_less_iff)
  then have N2: "(of_nat N :: rat) < 10 ^ 15" by simp
  have ppos: "0 < p" using N1 by (simp add: p_def)
  have fl: "of_int a \<le> p * 256" "p * 256 < of_int a + 1"
    using floor_correct [of "p * 256"] by (simp_all add: a_def)
  have "2 \<le> a" unfolding a_def using N1 by (simp add: le_floor_iff p_def)
  then have a0: "0 < a" "0 < a + 1" by simp_all
  have "a < 2 ^ 53 - 1" unfolding a_def using N2 by (simp add: floor_less_iff p_def)
  then have a1: "a < 2 ^ 53" "a + 1 < 2 ^ 53" by simp_all
  have lo: "of_int a * 2 powi (- 8) \<le> p" using fl(1) by simp
  have hi: "p \<le> of_int (a + 1) * 2 powi (- 8)" using fl(2) by simp
  have "of_int a * 2 powi (- 8) \<le> round53 p \<and> round53 p \<le> of_int (a + 1) * 2 powi (- 8)"
    using ppos lo a0(1) a1(1) _ hi a0(2) a1(2) by (rule round53_bracket) simp_all
  then show ?thesis using fl by (simp add: p_def)
qed

lemma R5_float_exact:
  fixes N :: nat
  assumes N: "N < 10 ^ 15"
  shows "\<exists>v. f64_round (of_nat N / 100) = Fin v
           \<and> f64_to_int P (Ceil (f64_mul (Fin v) (Fin (3602879701896397 / 2 ^ 54))))
               = word_of_int \<lceil>(of_nat N :: rat) / 500\<rceil>"
proof (cases "N = 0")
  case True
  then show ?thesis by (simp add: f64_round_def)
next
  case False
  then have Npos: "0 < N" by simp
  define p :: rat where "p = of_nat N / 100"
  define pf where "pf = round53 p"
  define k where "k = int (N div 500)"
  define f where "f = int (N mod 500)"
  have Nkf: "(of_nat N :: rat) = 500 * of_int k + of_int f"
  proof -
    have "int N = int (500 * (N div 500) + N mod 500)" by simp
    also have "\<dots> = 500 * int (N div 500) + int (N mod 500)"
      by (simp only: of_nat_add of_nat_mult of_nat_numeral)
    finally have "int N = 500 * k + f" by (simp only: k_def f_def)
    then have "(of_int (int N) :: rat) = of_int (500 * k + f)" by simp
    then show ?thesis by simp
  qed
  have k0: "0 \<le> k" by (simp add: k_def)
  have "N div 500 < 2 * 10 ^ 12" using N by simp
  then have k1: "k < 2 * 10 ^ 12" by (simp add: k_def)
  have f0: "0 \<le> f" and f1: "f < 500" by (simp_all add: f_def)
  have kr: "(0::rat) \<le> of_int k" "(of_int k :: rat) \<le> 2 * 10 ^ 12"
    using k0 k1 by (simp_all add: less_imp_le)
  have N1: "(1::rat) \<le> of_nat N" using Npos by (simp add: Suc_leI)
  have ppos: "0 < p" using N1 by (simp add: p_def)
  have pkf: "p = 5 * of_int k + of_int f / 100" by (simp add: p_def Nkf)
  have pb: "p - 1 / 256 \<le> pf" "pf \<le> p + 1 / 256"
    using round53_price [OF Npos N] by (simp_all add: pf_def p_def)
  have pfpos: "0 < pf" using pb(1) N1 by (simp add: p_def)
  have "pf < 2 powi 1024" using pb(2) kr f1 by (simp add: pkf)
  then have rp: "f64_round p = Fin pf" using ppos by (simp add: f64_round_pos pf_def)
  define y where "y = pf * (3602879701896397 / 2 ^ 54)"
  have ypos: "0 < y" using pfpos by (simp add: y_def)
  have mul: "f64_mul (Fin pf) (Fin (3602879701896397 / 2 ^ 54)) = f64_round y"
    by (simp add: y_def)
  have "\<exists>c. 0 \<le> c \<and> c < 2 ^ 63 \<and> round53 y \<le> of_int c \<and> of_int c - 1 < round53 y
          \<and> \<lceil>(of_nat N :: rat) / 500\<rceil> = c"
  proof (cases "f = 0")
    case True
    have kpos: "0 < k"
    proof (rule ccontr)
      assume "\<not> 0 < k"
      with k0 have "k = 0" by simp
      with True Nkf N1 show False by simp
    qed
    have p5: "p = of_int (5 * k) * 2 powi 0" using True by (simp add: pkf)
    have "round53 p = p"
      unfolding p5 using kpos k1 by (intro round53_exact) simp_all
    then have pfp: "pf = 5 * of_int k" using True by (simp add: pf_def pkf)
    define d :: rat where "d = of_int k / 2 ^ 54"
    have yk: "y = of_int k + d" by (simp add: y_def pfp d_def)
    have kk: "(0::rat) < of_int k" using kpos by simp
    have d0: "0 \<le> d" using k0 by (simp add: d_def)
    have e: "(2::rat) powi (ilog2 (of_int k :: rat) + 1) = 2 powi (ilog2 (of_int k :: rat) - 53) * 2 powi 54"
    proof -
      have "(2::rat) powi (ilog2 (of_int k :: rat) - 53 + 54)
              = 2 powi (ilog2 (of_int k :: rat) - 53) * 2 powi 54"
        by (rule power_int_add) simp
      moreover have "ilog2 (of_int k :: rat) - 53 + 54 = ilog2 (of_int k :: rat) + 1" by simp
      ultimately show ?thesis by (simp only:)
    qed
    have "(of_int k :: rat) < 2 powi (ilog2 (of_int k :: rat) - 53) * 2 powi 54"
      using ilog2_bounds [OF kk] unfolding e by simp
    then have d1: "d < 2 powi (ilog2 (of_int k) - 53)"
      by (simp add: d_def pos_divide_less_eq)
    have "round53 y = of_int k"
      unfolding yk using kpos _ d0 d1 by (rule round53_int_plus_small) (use k1 in simp)
    moreover have "\<lceil>(of_nat N :: rat) / 500\<rceil> = k" using True by (simp add: Nkf)
    ultimately show ?thesis using k0 k1 by (intro exI [of _ k]) simp
  next
    case False
    with f0 have f1': "1 \<le> f" by simp
    have fr: "(1::rat) \<le> of_int f" "(of_int f :: rat) \<le> 499"
      using f1' f1 by simp_all
    have ylo: "of_int (k * 1024 + 1) * 2 powi (- 10) \<le> y"
      using pb(1) kr fr by (simp add: y_def pkf)
    have yhi: "y \<le> of_int (k * 1024 + 1023) * 2 powi (- 10)"
      using pb(2) kr fr by (simp add: y_def pkf)
    have "of_int (k * 1024 + 1) * 2 powi (- 10) \<le> round53 y
          \<and> round53 y \<le> of_int (k * 1024 + 1023) * 2 powi (- 10)"
      using ypos ylo _ _ _ yhi by (rule round53_bracket) (use k0 k1 in simp_all)
    then have "of_int (k + 1) - 1 < round53 y" "round53 y \<le> of_int (k + 1)" by simp_all
    moreover have "\<lceil>(of_nat N :: rat) / 500\<rceil> = k + 1"
      using fr by (intro ceiling_unique) (simp_all add: Nkf)
    ultimately show ?thesis using k0 k1 by (intro exI [of _ "k + 1"]) simp
  qed
  then obtain c where c: "0 \<le> c" "c < 2 ^ 63" "round53 y \<le> of_int c" "of_int c - 1 < round53 y"
    and cN: "\<lceil>(of_nat N :: rat) / 500\<rceil> = c" by blast
  have "round53 y < 2 powi 1024"
  proof -
    have "(of_int c :: rat) < of_int (2 ^ 63)" using c(2) by (simp only: of_int_less_iff)
    with c(3) show ?thesis by simp
  qed
  then have "f64_round y = Fin (round53 y)" using ypos by (simp add: f64_round_pos)
  moreover have "\<lceil>round53 y\<rceil> = c" using c(3,4) by (intro ceiling_unique) simp_all
  ultimately have "f64_to_int P (Ceil (f64_mul (Fin pf) (Fin (3602879701896397 / 2 ^ 54))))
      = word_of_int c"
    using c(1,2) by (simp only: mul Ceil.simps f64_to_int_of_int)
  with rp cN show ?thesis by (simp add: p_def)
qed

section \<open>Facts about parsing and formats\<close>

lemma byte_char_of: "n < 256 \<Longrightarrow> byte (char_of n) = n"
  by (simp add: byte_def)

lemma digit_char_of: "d < 10 \<Longrightarrow> digit (char_of (48 + d :: nat))"
  by (simp add: digit_def byte_char_of)

lemma colon_not_digit: "\<not> digit CHR '':''"
  by (simp add: digit_def byte_def)

lemma getnum_two_digits:
  assumes "n < 100"
  shows "getnum (two_digits n @ rest) fixed = Some (n, rest)"
proof -
  have "n div 10 < 10" "n mod 10 < 10" using assms by auto
  then show ?thesis
    by (simp add: getnum_def two_digits_def isDigit_def digit_char_of byte_char_of)
qed

lemma Parse_clock_clock_string:
  assumes "h < 24" and "m < 60"
  shows "Parse_clock (clock_string h m) = Some \<lparr>Year = 0, Month = 1, Day = 1, Hour = h, Minute = m\<rparr>"
proof -
  have 1: "getnum (two_digits h @ CHR '':'' # two_digits m) False = Some (h, CHR '':'' # two_digits m)"
    using assms by (intro getnum_two_digits) simp
  have 2: "getnum (two_digits m) True = Some (m, [])"
    using getnum_two_digits [of m "[]" True] assms by simp
  show ?thesis using assms by (simp add: Parse_clock_def clock_string_def 1 2 skip_def)
qed

lemma dot_not_digit: "\<not> digit CHR ''.''"
  by (simp add: digit_def byte_def)

lemma currency_format_iff:
  "IsValidCurrencyFormat s \<longleftrightarrow>
     (\<exists>ds c1 c2. s = ds @ [CHR ''.'', c1, c2] \<and> ds \<noteq> [] \<and> list_all digit ds \<and> digit c1 \<and> digit c2)"
proof
  assume v: "IsValidCurrencyFormat s"
  define ds where "ds = takeWhile digit s"
  define rest where "rest = dropWhile digit s"
  have s: "s = ds @ rest" by (simp add: ds_def rest_def)
  from v obtain c1 c2 where r: "rest = [CHR ''.'', c1, c2]" and d: "digit c1" "digit c2" and ne: "ds \<noteq> []"
    by (auto simp: IsValidCurrencyFormat_def Let_def ds_def rest_def split: list.splits)
  have "list_all digit ds" by (simp add: ds_def list_all_iff) (meson set_takeWhileD)
  with s r d ne show "\<exists>ds c1 c2. s = ds @ [CHR ''.'', c1, c2] \<and> ds \<noteq> [] \<and> list_all digit ds \<and> digit c1 \<and> digit c2"
    by blast
next
  assume "\<exists>ds c1 c2. s = ds @ [CHR ''.'', c1, c2] \<and> ds \<noteq> [] \<and> list_all digit ds \<and> digit c1 \<and> digit c2"
  then obtain ds c1 c2 where s: "s = ds @ [CHR ''.'', c1, c2]" and ne: "ds \<noteq> []"
    and all: "list_all digit ds" and d: "digit c1" "digit c2" by blast
  have t: "takeWhile digit s = ds" using all dot_not_digit by (simp add: s list_all_iff takeWhile_append2)
  have r: "dropWhile digit s = [CHR ''.'', c1, c2]"
    using all dot_not_digit by (simp add: s list_all_iff dropWhile_append2)
  show "IsValidCurrencyFormat s" using ne d by (simp add: IsValidCurrencyFormat_def t r)
qed

lemma minus_not_digit: "\<not> digit CHR ''-''"
  by (simp add: digit_def byte_def)

lemma validate_target: "validateReceipt target_receipt = None"
  by (simp add: validateReceipt_def target_receipt_def IsValidDateFormat_def IsValidTimeFormat_def
      IsValidCurrencyFormat_def Parse_date_def Parse_clock_def getnum_def isDigit_def atoi_def
      skip_def digit_def byte_def digits_value_def daysIn_def isLeap_def)

lemma round53_2_01: "round53 (201 / 100) = 1131529406376837 / 2 ^ 49"
  by (simp add: round53_eval [where k = 1] rne_def Let_def)

lemma ParseFloat_2_01: "ParseFloat P ''2.01'' = Some (Fin (1131529406376837 / 2 ^ 49))"
  by (simp add: ParseFloat_def plain_decimal_def digit_def byte_def digits_value_def
      f64_round_pos round53_2_01)

lemma sint_word_of_int64:
  assumes "- (2 ^ 63) \<le> c" and "c < 2 ^ 63"
  shows "sint (word_of_int c :: 64 word) = c"
  using assms by (simp add: int_word_sint)

lemma filter_digit_currency:
  assumes "list_all digit ds" and "digit c1" and "digit c2"
  shows "filter digit (ds @ [CHR ''.'', c1, c2]) = ds @ [c1, c2]"
  using assms dot_not_digit by (simp add: list_all_iff)

lemma plain_decimal_currency:
  assumes "IsValidCurrencyFormat s"
  shows "plain_decimal s = Some (of_nat (cents_of s) / 100)"
proof -
  from assms obtain ds c1 c2 where s: "s = ds @ [CHR ''.'', c1, c2]" and ne: "ds \<noteq> []"
    and all: "list_all digit ds" and d: "digit c1" "digit c2"
    unfolding currency_format_iff by blast
  have t: "takeWhile digit s = ds" using all dot_not_digit by (simp add: s list_all_iff takeWhile_append2)
  have r: "dropWhile digit s = [CHR ''.'', c1, c2]"
    using all dot_not_digit by (simp add: s list_all_iff dropWhile_append2)
  have c: "cents_of s = digits_value (ds @ [c1, c2])"
    using filter_digit_currency [OF all d] by (simp add: cents_of_def s)
  show ?thesis using ne d by (simp add: plain_decimal_def t r c)
qed

lemma currency_nonempty: "IsValidCurrencyFormat s \<Longrightarrow> s \<noteq> []"
  by (auto simp: IsValidCurrencyFormat_def)

lemma R5_exact:
  assumes v: "IsValidCurrencyFormat (Price item)" and b: "cents_of (Price item) < 10 ^ 15"
  shows "R5 P item =
     (if length (TrimSpace (ShortDescription item)) mod 3 = 0
         \<and> 0 < length (TrimSpace (ShortDescription item))
      then word_of_int \<lceil>(of_nat (cents_of (Price item)) :: rat) / 500\<rceil> else 0)"
proof -
  from R5_float_exact [OF b, of P] obtain x where
    x: "f64_round (of_nat (cents_of (Price item)) / 100) = Fin x"
    and r: "f64_to_int P (Ceil (f64_mul (Fin x) (Fin (3602879701896397 / 2 ^ 54))))
               = word_of_int \<lceil>(of_nat (cents_of (Price item)) :: rat) / 500\<rceil>"
    by blast
  have "ParseFloat P (Price item) = Some (Fin x)"
    using currency_nonempty [OF v] by (simp add: ParseFloat_def plain_decimal_currency [OF v] x)
  then show ?thesis using r by (simp add: R5_def Let_def f64_round_fifth)
qed

lemma ceiling_cents_bounds:
  fixes N :: nat
  assumes "N < 10 ^ 15"
  shows "0 \<le> \<lceil>(of_nat N :: rat) / 500\<rceil> \<and> \<lceil>(of_nat N :: rat) / 500\<rceil> \<le> 2 * 10 ^ 12"
proof -
  have "(of_nat N :: rat) < of_nat (10 ^ 15)" using assms by (simp only: of_nat_less_iff)
  then have "(of_nat N :: rat) / 500 \<le> of_int (2 * 10 ^ 12)" by simp
  then have "\<lceil>(of_nat N :: rat) / 500\<rceil> \<le> 2 * 10 ^ 12" by (simp only: ceiling_le_iff)
  moreover have "0 \<le> \<lceil>(of_nat N :: rat) / 500\<rceil>" by simp
  ultimately show ?thesis by simp
qed

lemma R5_sint:
  assumes v: "IsValidCurrencyFormat (Price item)" and b: "cents_of (Price item) < 10 ^ 15"
  shows "sint (R5 P item) =
     (if length (TrimSpace (ShortDescription item)) mod 3 = 0
         \<and> 0 < length (TrimSpace (ShortDescription item))
      then \<lceil>(of_nat (cents_of (Price item)) :: rat) / 500\<rceil> else 0)"
  using ceiling_cents_bounds [OF b]
  by (simp add: R5_exact [OF v b] sint_word_of_int64)

lemma TrimSpace_XYZ: "TrimSpace ''XYZ'' = ''XYZ''"
  by (simp add: TrimSpace_def TrimLeftSpace.simps TrimRightSpace.simps decodeLastRune_def
      IsSpace_def byte_def)

lemma IsValid_5e19: "IsValidCurrencyFormat ''50000000000000000000.00''"
  by (simp add: IsValidCurrencyFormat_def digit_def byte_def)

lemma cents_5e19: "cents_of ''50000000000000000000.00'' = 5000000000000000000000"
  by (simp add: cents_of_def digits_value_def digit_def byte_def)

lemma round53_5e19: "round53 50000000000000000000 = 50000000000000000000"
  by (simp add: round53_eval [where k = 65] rne_def Let_def)

lemma ParseFloat_5e19:
  "ParseFloat P ''50000000000000000000.00'' = Some (Fin 50000000000000000000)"
  using IsValid_5e19
  by (simp add: ParseFloat_def plain_decimal_currency cents_5e19 f64_round_pos round53_5e19)

lemma R5_5e19:
  "R5 P \<lparr>ShortDescription = ''XYZ'', Price = ''50000000000000000000.00''\<rparr>
     = float_to_int_unrep P (Fin 10000000000000000000)"
  by (simp add: R5_def TrimSpace_XYZ ParseFloat_5e19 f64_round_fifth
      round53_eval [where k = 63] f64_round_pos rne_def Let_def)

section \<open>Facts about validation\<close>

lemma digit_char:
  assumes "digit c"
  shows "c = char_of (48 + (byte c - 48))" and "byte c - 48 < 10"
proof -
  have "48 \<le> byte c" "byte c \<le> 57" using assms by (simp_all add: digit_def)
  then show "byte c - 48 < 10" by simp
  have "48 + (byte c - 48) = byte c" using \<open>48 \<le> byte c\<close> by simp
  then show "c = char_of (48 + (byte c - 48))" by (simp add: byte_def)
qed

lemma two_digits_of_digits:
  assumes "digit c0" and "digit c1"
  shows "two_digits ((byte c0 - 48) * 10 + (byte c1 - 48)) = [c0, c1]"
    and "(byte c0 - 48) * 10 + (byte c1 - 48) < 100"
proof -
  define a where "a = byte c0 - 48"
  define b where "b = byte c1 - 48"
  have a: "a < 10" and b: "b < 10" using digit_char(2) assms by (simp_all add: a_def b_def)
  have c: "c0 = char_of (48 + a)" "c1 = char_of (48 + b)"
    using digit_char(1) assms by (simp_all add: a_def b_def)
  have "(a * 10 + b) div 10 = a" "(a * 10 + b) mod 10 = b" using a b by simp_all
  then show "two_digits ((byte c0 - 48) * 10 + (byte c1 - 48)) = [c0, c1]"
    unfolding a_def [symmetric] b_def [symmetric] by (simp add: two_digits_def c)
  show "(byte c0 - 48) * 10 + (byte c1 - 48) < 100"
    unfolding a_def [symmetric] b_def [symmetric] using a b by simp
qed

lemma getnum_two:
  assumes "isDigit v 0" and "isDigit v 1"
  shows "\<exists>c0 c1 rest. v = c0 # c1 # rest \<and> digit c0 \<and> digit c1"
proof -
  from assms obtain c0 c1 rest where "v = c0 # c1 # rest"
    by (cases v; cases "tl v") (auto simp: isDigit_def)
  with assms show ?thesis by (auto simp: isDigit_def)
qed

lemma getnum_fixed_Some:
  assumes "getnum v True = Some (n, rest)"
  shows "n < 100 \<and> v = two_digits n @ rest"
proof -
  from assms have d: "isDigit v 0" "isDigit v 1"
    by (auto simp: getnum_def split: if_splits)
  then obtain c0 c1 rest' where v: "v = c0 # c1 # rest'" and c: "digit c0" "digit c1"
    using getnum_two by blast
  from assms d have "n = (byte c0 - 48) * 10 + (byte c1 - 48)" "rest = rest'"
    by (simp_all add: getnum_def v)
  with two_digits_of_digits [OF c] v show ?thesis by simp
qed

lemma getnum_free_Some:
  assumes "getnum v False = Some (n, rest)"
  shows "(n < 100 \<and> v = two_digits n @ rest) \<or> (n < 10 \<and> v = char_of (48 + n) # rest)"
proof (cases "isDigit v 1")
  case True
  then have "getnum v True = Some (n, rest)" using assms by (auto simp: getnum_def split: if_splits)
  then show ?thesis using getnum_fixed_Some by blast
next
  case False
  from assms have d: "isDigit v 0" by (auto simp: getnum_def split: if_splits)
  then obtain c0 rest' where v: "v = c0 # rest'" and c: "digit c0"
    by (cases v) (auto simp: isDigit_def)
  from assms d False have "n = byte c0 - 48" "rest = rest'" by (simp_all add: getnum_def v)
  with digit_char [OF c] v show ?thesis by simp
qed

lemma getnum_one_digit:
  assumes "n < 10" and "\<not> isDigit rest 0"
  shows "getnum (char_of (48 + n) # rest) False = Some (n, rest)"
  using assms by (simp add: getnum_def isDigit_def digit_char_of byte_char_of)

lemma skip_Some: "skip v c = Some rest \<longleftrightarrow> v = c # rest"
  by (cases v) (auto simp: skip_def)

lemma IsValidTimeFormat_iff:
  "IsValidTimeFormat s \<longleftrightarrow>
     (\<exists>h m. h < 24 \<and> m < 60
        \<and> (s = clock_string h m \<or> (h < 10 \<and> s = char_of (48 + h) # CHR '':'' # two_digits m)))"
proof
  assume "IsValidTimeFormat s"
  then obtain t where t: "Parse_clock s = Some t" by (auto simp: IsValidTimeFormat_def)
  then obtain h v1 where g1: "getnum s False = Some (h, v1)" and h: "h < 24"
    by (auto simp: Parse_clock_def split: option.splits if_splits)
  with t obtain v2 where s1: "skip v1 CHR '':'' = Some v2"
    by (auto simp: Parse_clock_def split: option.splits if_splits)
  with t g1 h obtain m where g2: "getnum v2 True = Some (m, [])" and m: "m < 60"
    by (auto simp: Parse_clock_def split: option.splits if_splits)
  have v1: "v1 = CHR '':'' # v2" using s1 by (simp add: skip_Some)
  have v2: "v2 = two_digits m" using getnum_fixed_Some [OF g2] by simp
  from getnum_free_Some [OF g1] v1 v2 h m
  show "\<exists>h m. h < 24 \<and> m < 60
        \<and> (s = clock_string h m \<or> (h < 10 \<and> s = char_of (48 + h) # CHR '':'' # two_digits m))"
    by (auto simp: clock_string_def)
next
  assume "\<exists>h m. h < 24 \<and> m < 60
        \<and> (s = clock_string h m \<or> (h < 10 \<and> s = char_of (48 + h) # CHR '':'' # two_digits m))"
  then obtain h m where h: "h < 24" and m: "m < 60"
    and s: "s = clock_string h m \<or> (h < 10 \<and> s = char_of (48 + h) # CHR '':'' # two_digits m)"
    by blast
  from s show "IsValidTimeFormat s"
  proof
    assume "s = clock_string h m"
    then show ?thesis using Parse_clock_clock_string [OF h m] by (simp add: IsValidTimeFormat_def)
  next
    assume a: "h < 10 \<and> s = char_of (48 + h) # CHR '':'' # two_digits m"
    have 1: "getnum s False = Some (h, CHR '':'' # two_digits m)"
      using a colon_not_digit by (simp add: getnum_one_digit isDigit_def)
    have 2: "getnum (two_digits m) True = Some (m, [])"
      using getnum_two_digits [of m "[]" True] m by simp
    show ?thesis using h m by (simp add: IsValidTimeFormat_def Parse_clock_def 1 2 skip_def)
  qed
qed

lemma digits_value_four:
  "digits_value [c0, c1, c2, c3]
     = ((byte c0 - 48) * 10 + (byte c1 - 48)) * 100 + ((byte c2 - 48) * 10 + (byte c3 - 48))"
  by (simp add: digits_value_def)

lemma four_digits_of_digits:
  assumes "digit c0" and "digit c1" and "digit c2" and "digit c3"
  shows "four_digits (digits_value [c0, c1, c2, c3]) = [c0, c1, c2, c3]"
    and "digits_value [c0, c1, c2, c3] < 10000"
proof -
  define a where "a = (byte c0 - 48) * 10 + (byte c1 - 48)"
  define b where "b = (byte c2 - 48) * 10 + (byte c3 - 48)"
  have a: "a < 100" "two_digits a = [c0, c1]"
    using two_digits_of_digits [OF assms(1,2)] by (simp_all add: a_def)
  have b: "b < 100" "two_digits b = [c2, c3]"
    using two_digits_of_digits [OF assms(3,4)] by (simp_all add: b_def)
  have v: "digits_value [c0, c1, c2, c3] = a * 100 + b"
    by (simp add: digits_value_four a_def b_def)
  have "(a * 100 + b) div 100 = a" "(a * 100 + b) mod 100 = b" using b(1) by simp_all
  then show "four_digits (digits_value [c0, c1, c2, c3]) = [c0, c1, c2, c3]"
    by (simp add: v four_digits_def a(2) b(2))
  show "digits_value [c0, c1, c2, c3] < 10000" using a(1) b(1) by (simp add: v)
qed

lemma two_digits_digit:
  assumes "n < 100"
  shows "list_all digit (two_digits n)" and "length (two_digits n) = 2"
    and "digits_value (two_digits n @ cs) = foldl (\<lambda>a c. 10 * a + (byte c - 48)) n cs"
proof -
  have d: "n div 10 < 10" "n mod 10 < 10" using assms by simp_all
  show "list_all digit (two_digits n)" using d by (simp add: two_digits_def digit_char_of)
  show "length (two_digits n) = 2" by (simp add: two_digits_def)
  have "10 * (n div 10) + n mod 10 = n" by simp
  then show "digits_value (two_digits n @ cs) = foldl (\<lambda>a c. 10 * a + (byte c - 48)) n cs"
    using d by (simp add: digits_value_def two_digits_def byte_char_of)
qed

lemma four_digits_value:
  assumes "y < 10000"
  shows "list_all digit (four_digits y)" and "length (four_digits y) = 4"
    and "digits_value (four_digits y) = y"
proof -
  have a: "y div 100 < 100" and b: "y mod 100 < 100" using assms by simp_all
  show "list_all digit (four_digits y)"
    using two_digits_digit(1) [OF a] two_digits_digit(1) [OF b] by (simp add: four_digits_def)
  show "length (four_digits y) = 4"
    using two_digits_digit(2) [OF a] two_digits_digit(2) [OF b] by (simp add: four_digits_def)
  have "digits_value (four_digits y) = foldl (\<lambda>a c. 10 * a + (byte c - 48)) (y div 100) (two_digits (y mod 100))"
    unfolding four_digits_def by (rule two_digits_digit(3) [OF a])
  also have "\<dots> = 10 * (10 * (y div 100) + y mod 100 div 10) + y mod 100 mod 10"
    using b by (simp add: two_digits_def byte_char_of)
  also have "\<dots> = 100 * (y div 100) + (10 * (y mod 100 div 10) + y mod 100 mod 10)" by simp
  also have "\<dots> = 100 * (y div 100) + y mod 100" by simp
  also have "\<dots> = y" by simp
  finally show "digits_value (four_digits y) = y" .
qed

lemma Parse_date_date_string:
  assumes y: "y < 10000" and m: "1 \<le> m" "m \<le> 12" and d: "1 \<le> d" "d \<le> daysIn m y"
  shows "Parse_date (date_string y m d)
           = Some \<lparr>Year = y, Month = m, Day = d, Hour = 0, Minute = 0\<rparr>"
proof -
  obtain c0 c1 c2 c3 where f: "four_digits y = [c0, c1, c2, c3]"
    by (simp add: four_digits_def two_digits_def)
  have dg: "digit c0" "digit c1" "digit c2" "digit c3"
    using four_digits_value(1) [OF y] by (simp_all add: f)
  have v: "digits_value [c0, c1, c2, c3] = y" using four_digits_value(3) [OF y] by (simp add: f)
  have "[31, 28, 31, 30, 31, 30, 31, 31, 30, 31, 30, 31] ! (m - 1)
          \<in> set [31, 28, 31, 30, 31, 30, 31, 31, 30, 31, 30, 31::nat]"
    by (rule nth_mem) (use m in simp)
  then have "[31, 28, 31, 30, 31, 30, 31, 31, 30, 31, 30, 31] ! (m - 1) \<le> (31::nat)"
    by auto
  then have "daysIn m y \<le> 31" by (simp add: daysIn_def)
  then have d100: "d < 100" using d by simp
  have m100: "m < 100" using m by simp
  have 1: "getnum (two_digits m @ CHR ''-'' # two_digits d) True = Some (m, CHR ''-'' # two_digits d)"
    using m100 by (rule getnum_two_digits)
  have 2: "getnum (two_digits d) True = Some (d, [])"
    using getnum_two_digits [OF d100, of "[]" True] by simp
  show ?thesis
    using m d dg by (simp add: Parse_date_def date_string_def f isDigit_def atoi_def v 1 2 skip_def)
qed

lemma IsValidDateFormat_iff:
  "IsValidDateFormat s \<longleftrightarrow>
     (\<exists>y m d. y < 10000 \<and> 1 \<le> m \<and> m \<le> 12 \<and> 1 \<le> d \<and> d \<le> daysIn m y
        \<and> s = date_string y m d)"
proof
  assume "IsValidDateFormat s"
  then obtain t where t: "Parse_date s = Some t" by (auto simp: IsValidDateFormat_def)
  then have len: "4 \<le> length s"
    by (auto simp: Parse_date_def split: if_splits)
  from t len obtain y where a: "atoi (take 4 s) = Some y"
    by (auto simp: Parse_date_def split: option.splits if_splits)
  with t len obtain v1 where s1: "skip (drop 4 s) CHR ''-'' = Some v1"
    by (auto simp: Parse_date_def split: option.splits if_splits)
  with t len a obtain m v2 where g1: "getnum v1 True = Some (m, v2)" and m: "1 \<le> m" "m \<le> 12"
    by (auto simp: Parse_date_def split: option.splits if_splits)
  with t len a s1 obtain v3 where s2: "skip v2 CHR ''-'' = Some v3"
    by (auto simp: Parse_date_def split: option.splits if_splits)
  with t len a s1 g1 m obtain d where g2: "getnum v3 True = Some (d, [])"
    and d: "1 \<le> d" "d \<le> daysIn m y"
    by (auto simp: Parse_date_def split: option.splits if_splits)
  obtain c0 c1 c2 c3 where tk: "take 4 s = [c0, c1, c2, c3]"
    using len by (cases s; cases "tl s"; cases "tl (tl s)"; cases "tl (tl (tl s))") auto
  from a have dg: "digit c0" "digit c1" "digit c2" "digit c3" and yv: "y = digits_value [c0, c1, c2, c3]"
    by (auto simp: atoi_def tk split: if_splits)
  have f: "four_digits y = take 4 s" and y: "y < 10000"
    using four_digits_of_digits [OF dg] by (simp_all add: yv tk)
  have "s = take 4 s @ drop 4 s" by simp
  also have "drop 4 s = CHR ''-'' # v1" using s1 by (simp add: skip_Some)
  also have "v1 = two_digits m @ v2" using getnum_fixed_Some [OF g1] by simp
  also have "v2 = CHR ''-'' # v3" using s2 by (simp add: skip_Some)
  also have "v3 = two_digits d" using getnum_fixed_Some [OF g2] by simp
  finally have "s = date_string y m d" by (simp add: date_string_def f)
  with y m d show "\<exists>y m d. y < 10000 \<and> 1 \<le> m \<and> m \<le> 12 \<and> 1 \<le> d \<and> d \<le> daysIn m y
        \<and> s = date_string y m d"
    by blast
next
  assume "\<exists>y m d. y < 10000 \<and> 1 \<le> m \<and> m \<le> 12 \<and> 1 \<le> d \<and> d \<le> daysIn m y
        \<and> s = date_string y m d"
  then show "IsValidDateFormat s"
    using Parse_date_date_string by (auto simp: IsValidDateFormat_def)
qed

lemma first_failure_Cons:
  "first_failure ((b, e) # checks) = (if b then Some e else first_failure checks)"
  by (simp add: first_failure_def)

lemma first_failure_Nil: "first_failure [] = None"
  by (simp add: first_failure_def)

lemma first_failure_append:
  "first_failure (xs @ ys) = (case first_failure xs of Some e \<Rightarrow> Some e | None \<Rightarrow> first_failure ys)"
  by (induction xs) (auto simp: first_failure_def)

lemma first_failure_item_checks:
  "first_failure (item_checks i item @ rest) =
     (if ShortDescription item = []
        then Some (NewMissingFieldError (''items['' @ string_rune i @ ''].shortDescription''))
      else if Price item = []
        then Some (NewMissingFieldError (''items['' @ string_rune i @ ''].price''))
      else if \<not> IsValidCurrencyFormat (Price item)
        then Some (NewInvalidFormatError (''items['' @ string_rune i @ ''].price'') (Price item))
      else first_failure rest)"
  by (simp add: item_checks_def first_failure_Cons)

lemma validateItems_first_failure:
  "validateItems i items
     = first_failure (concat (map (\<lambda>(j, item). item_checks j item) (enumerate i items)))"
proof (induction items arbitrary: i)
  case Nil
  then show ?case by (simp add: first_failure_Nil)
next
  case (Cons item items)
  show ?case
    by (simp add: first_failure_item_checks Cons.IH [of "Suc i"])
qed

lemma validateReceipt_first_failure: "validateReceipt r = first_failure (receipt_checks r)"
  by (simp add: validateReceipt_def receipt_checks_def first_failure_append
      validateItems_first_failure)
    (simp add: first_failure_Cons first_failure_Nil)

section \<open>Facts about UTF-8\<close>

lemma add_mod_small: "a < m \<Longrightarrow> (k * m + a) mod m = (a::nat)"
  by simp

lemma decodeRune_encodeRune_1:
  assumes "r \<le> 0x7F"
  shows "decodeRune (encodeRune r @ rest) = (r, 1)"
  using assms by (simp add: encodeRune_def byte_char_of)

lemma decodeRune_encodeRune_2:
  assumes "0x7F < r" and "r \<le> 0x7FF"
  shows "decodeRune (encodeRune r @ rest) = (r, 2)"
proof -
  define a where "a = r div 64"
  define b where "b = r mod 64"
  have r: "r = a * 64 + b" by (simp add: a_def b_def)
  have a: "2 \<le> a" "a < 32" using assms unfolding a_def by linarith+
  have b: "b < 64" by (simp add: b_def)
  have e: "encodeRune r = [char_of (0xC0 + a), char_of (0x80 + b)]"
    using assms by (simp add: encodeRune_def a_def b_def)
  have 0: "byte (char_of (0xC0 + a)) = 0xC0 + a" using a by (intro byte_char_of) simp
  have 1: "byte (char_of (0x80 + b)) = 0x80 + b" using b by (intro byte_char_of) simp
  have m0: "(0xC0 + a) mod 32 = a" using add_mod_small [of a 32 6] a by simp
  have m1: "(0x80 + b) mod 64 = b" using add_mod_small [of b 64 2] b by simp
  show ?thesis
    unfolding e using a b by (simp add: 0 1 m0 m1 Let_def r)
qed

lemma decodeRune_encodeRune_3:
  assumes "0x7FF < r" and "r \<le> 0xFFFF" and "\<not> (0xD800 \<le> r \<and> r \<le> 0xDFFF)"
  shows "decodeRune (encodeRune r @ rest) = (r, 3)"
proof -
  define q where "q = r div 64"
  define c where "c = r mod 64"
  define a where "a = q div 64"
  define b where "b = q mod 64"
  have rq: "r = q * 64 + c" by (simp add: q_def c_def)
  have qa: "q = a * 64 + b" by (simp add: a_def b_def)
  have r: "r = a * 4096 + b * 64 + c" using rq qa by simp
  have b: "b < 64" by (simp add: b_def)
  have c: "c < 64" by (simp add: c_def)
  have a: "a < 16" using assms(2) r b c by linarith
  have a0: "a = 0 \<longrightarrow> 32 \<le> b" using assms(1) r c by linarith
  have a13: "a = 13 \<longrightarrow> b < 32" using assms(3) r b c by linarith
  have d: "r div 4096 = a" using div_mult2_eq [of r 64 64] by (simp add: a_def q_def)
  have e: "encodeRune r = [char_of (0xE0 + a), char_of (0x80 + b), char_of (0x80 + c)]"
    using assms by (auto simp: encodeRune_def d b_def c_def q_def)
  have 0: "byte (char_of (0xE0 + a)) = 0xE0 + a" using a by (intro byte_char_of) simp
  have 1: "byte (char_of (0x80 + b)) = 0x80 + b" using b by (intro byte_char_of) simp
  have 2: "byte (char_of (0x80 + c)) = 0x80 + c" using c by (intro byte_char_of) simp
  have m0: "(0xE0 + a) mod 16 = a" using add_mod_small [of a 16 14] a by simp
  have m1: "(0x80 + b) mod 64 = b" using add_mod_small [of b 64 2] b by simp
  have m2: "(0x80 + c) mod 64 = c" using add_mod_small [of c 64 2] c by simp
  show ?thesis
    unfolding e using a b c a0 a13 by (auto simp: 0 1 2 m0 m1 m2 Let_def r)
qed

lemma decodeRune_encodeRune_4:
  assumes "0xFFFF < r" and "r \<le> 0x10FFFF"
  shows "decodeRune (encodeRune r @ rest) = (r, 4)"
proof -
  define q where "q = r div 64"
  define d where "d = r mod 64"
  define p where "p = q div 64"
  define c where "c = q mod 64"
  define a where "a = p div 64"
  define b where "b = p mod 64"
  have rq: "r = q * 64 + d" by (simp add: q_def d_def)
  have qp: "q = p * 64 + c" by (simp add: p_def c_def)
  have pa: "p = a * 64 + b" by (simp add: a_def b_def)
  have r: "r = a * 262144 + b * 4096 + c * 64 + d" using rq qp pa by simp
  have b: "b < 64" by (simp add: b_def)
  have c: "c < 64" by (simp add: c_def)
  have d: "d < 64" by (simp add: d_def)
  have a: "a < 5" using assms(2) r by linarith
  have a0: "a = 0 \<longrightarrow> 16 \<le> b" using assms(1) r c d by linarith
  have a4: "a = 4 \<longrightarrow> b < 16" using assms(2) r by linarith
  have d1: "r div 4096 = p" using div_mult2_eq [of r 64 64] by (simp add: p_def q_def)
  have d2: "r div 262144 = a" using div_mult2_eq [of r 4096 64] by (simp add: d1 a_def)
  have e: "encodeRune r
      = [char_of (0xF0 + a), char_of (0x80 + b), char_of (0x80 + c), char_of (0x80 + d)]"
    using assms by (auto simp: encodeRune_def d1 d2 b_def c_def d_def p_def q_def)
  have 0: "byte (char_of (0xF0 + a)) = 0xF0 + a" using a by (intro byte_char_of) simp
  have 1: "byte (char_of (0x80 + b)) = 0x80 + b" using b by (intro byte_char_of) simp
  have 2: "byte (char_of (0x80 + c)) = 0x80 + c" using c by (intro byte_char_of) simp
  have 3: "byte (char_of (0x80 + d)) = 0x80 + d" using d by (intro byte_char_of) simp
  have m0: "(0xF0 + a) mod 8 = a" using add_mod_small [of a 8 30] a by simp
  have m1: "(0x80 + b) mod 64 = b" using add_mod_small [of b 64 2] b by simp
  have m2: "(0x80 + c) mod 64 = c" using add_mod_small [of c 64 2] c by simp
  have m3: "(0x80 + d) mod 64 = d" using add_mod_small [of d 64 2] d by simp
  show ?thesis
    unfolding e using a b c d a0 a4 by (auto simp: 0 1 2 3 m0 m1 m2 m3 Let_def r)
qed

lemma decodeRune_encodeRune:
  assumes "scalar_value r"
  shows "decodeRune (encodeRune r @ rest) = (r, length (encodeRune r))"
proof -
  consider "r \<le> 0x7F" | "0x7F < r" "r \<le> 0x7FF" | "0x7FF < r" "r \<le> 0xFFFF" | "0xFFFF < r"
    by linarith
  then show ?thesis
  proof cases
    case 1
    then show ?thesis using decodeRune_encodeRune_1 [OF 1] by (simp add: encodeRune_def)
  next
    case 2
    then show ?thesis using decodeRune_encodeRune_2 [OF 2] by (simp add: encodeRune_def)
  next
    case 3
    then show ?thesis using decodeRune_encodeRune_3 [OF 3] assms
      by (simp add: encodeRune_def scalar_value_def)
  next
    case 4
    then show ?thesis using decodeRune_encodeRune_4 [OF 4] assms
      by (simp add: encodeRune_def scalar_value_def)
  qed
qed

lemma encodeRune_nonempty: "encodeRune r \<noteq> []"
  by (simp add: encodeRune_def)

lemma countAlphanumeric_encodeRune:
  assumes "scalar_value r"
  shows "countAlphanumeric P (encodeRune r @ rest)
           = (if IsLetter P r \<or> IsDigit P r then 1 else 0) + countAlphanumeric P rest"
proof -
  obtain c cs where e: "encodeRune r = c # cs"
    using encodeRune_nonempty [of r] by (cases "encodeRune r") auto
  have d: "decodeRune (c # (cs @ rest)) = (r, Suc (length cs))"
    using decodeRune_encodeRune [OF assms, of rest] by (simp add: e)
  show ?thesis
    by (simp add: e countAlphanumeric.simps d del: decodeRune.simps)
qed

lemma countAlphanumeric_utf8:
  assumes "list_all scalar_value cps"
  shows "countAlphanumeric P (utf8 cps) = length (filter (\<lambda>r. IsLetter P r \<or> IsDigit P r) cps)"
  using assms
proof (induction cps)
  case Nil
  then show ?case by (simp add: utf8_def countAlphanumeric.simps)
next
  case (Cons r cps)
  then have "scalar_value r" and "list_all scalar_value cps" by simp_all
  with Cons.IH countAlphanumeric_encodeRune [of r P "utf8 cps"] show ?case
    by (simp add: utf8_def)
qed

section \<open>Facts about the points engine\<close>

lemma itemsLoop_sum: "itemsLoop P items points = points + sum_list (map (R5 P) items)"
  by (induction items arbitrary: points) (auto simp: R5_def Let_def split: option.splits)

lemma CalculatePoints_sum:
  "CalculatePoints P r
     = R1 P r + R2 r + R3 P r + R4 r + sum_list (map (R5 P) (Items r)) + R6 r + R7 r"
  by (simp add: CalculatePoints_def Let_def itemsLoop_sum R1_def R2_def R3_def R4_def R6_def R7_def)

lemma CalculatePoints_fields:
  "CalculatePoints P (r\<lparr>ID := i, Points := q\<rparr>) = CalculatePoints P r"
  by (simp add: CalculatePoints_def)

lemma countAlphanumeric_le: "countAlphanumeric P s \<le> length s"
proof (induction P s rule: countAlphanumeric.induct)
  case (1 P)
  then show ?case by (simp add: countAlphanumeric.simps)
next
  case (2 P c cs)
  obtain r wid where d: "decodeRune (c # cs) = (r, wid)" by (cases "decodeRune (c # cs)")
  then have w: "1 \<le> wid" by (auto simp: Let_def split: if_splits)
  have "countAlphanumeric P (drop wid (c # cs)) \<le> length (drop wid (c # cs))"
    using 2 [OF d [symmetric]] .
  then have "countAlphanumeric P (c # cs) \<le> 1 + length (drop wid (c # cs))"
    using d by (simp add: countAlphanumeric.simps del: decodeRune.simps)
  also have "\<dots> \<le> length (c # cs)" using w by simp
  finally show ?case .
qed

lemma validateItems_None:
  "validateItems i items = None \<Longrightarrow>
     list_all (\<lambda>item. ShortDescription item \<noteq> [] \<and> IsValidCurrencyFormat (Price item)) items"
  by (induction i items rule: validateItems.induct) (auto split: if_splits)

lemma validateReceipt_None:
  assumes "validateReceipt r = None"
  shows "Retailer r \<noteq> [] \<and> Items r \<noteq> [] \<and> IsValidDateFormat (PurchaseDate r)
         \<and> IsValidTimeFormat (PurchaseTime r) \<and> IsValidCurrencyFormat (Total r)
         \<and> list_all (\<lambda>item. ShortDescription item \<noteq> [] \<and> IsValidCurrencyFormat (Price item)) (Items r)"
  using assms validateItems_None [of 0 "Items r"]
  by (auto simp: validateReceipt_def split: if_splits)

lemma sum_list_word_sint:
  "(sum_list (map f xs) :: 64 word) = word_of_int (sum_list (map (\<lambda>x. sint (f x)) xs))"
  by (induction xs) simp_all

lemma sum_list_bounds:
  fixes g :: "'a \<Rightarrow> int"
  assumes "list_all (\<lambda>x. 0 \<le> g x \<and> g x \<le> B) xs"
  shows "0 \<le> sum_list (map g xs) \<and> sum_list (map g xs) \<le> int (length xs) * B"
  using assms by (induction xs) (auto simp: algebra_simps)

lemma small_word_sint:
  "sint (R2 r) \<in> {0, 50}" "sint (R3 P r) \<in> {0, 25}" "sint (R6 r) \<in> {0, 6}" "sint (R7 r) \<in> {0, 10}"
  by (simp_all add: R2_def R3_def R6_def R7_def)

lemma score_no_overflow:
  assumes v: "validateReceipt r = None"
    and pr: "list_all (\<lambda>item. cents_of (Price item) < 10 ^ 15) (Items r)"
    and ni: "length (Items r) < 2 ^ 20"
    and nr: "length (Retailer r) < 2 ^ 32"
  shows "sint (CalculatePoints P r)
           = int (countAlphanumeric P (Retailer r)) + sint (R2 r) + sint (R3 P r)
             + int (length (Items r) div 2 * 5)
             + sum_list (map (\<lambda>item. sint (R5 P item)) (Items r)) + sint (R6 r) + sint (R7 r)
         \<and> 0 \<le> sint (CalculatePoints P r)"
proof -
  define a1 where "a1 = int (countAlphanumeric P (Retailer r))"
  define a4 where "a4 = int (length (Items r) div 2 * 5)"
  define S where "S = sum_list (map (\<lambda>item. sint (R5 P item)) (Items r))"
  have valid: "list_all (\<lambda>item. IsValidCurrencyFormat (Price item)) (Items r)"
    using validateReceipt_None [OF v] by (simp add: list_all_iff)
  have "list_all (\<lambda>item. 0 \<le> sint (R5 P item) \<and> sint (R5 P item) \<le> 2 * 10 ^ 12) (Items r)"
    unfolding list_all_iff
  proof
    fix item assume i: "item \<in> set (Items r)"
    then have iv: "IsValidCurrencyFormat (Price item)" and ib: "cents_of (Price item) < 10 ^ 15"
      using valid pr by (simp_all add: list_all_iff)
    show "0 \<le> sint (R5 P item) \<and> sint (R5 P item) \<le> 2 * 10 ^ 12"
      using ceiling_cents_bounds [OF ib] by (simp add: R5_sint [OF iv ib])
  qed
  then have "0 \<le> S \<and> S \<le> int (length (Items r)) * (2 * 10 ^ 12)"
    unfolding S_def by (rule sum_list_bounds)
  moreover have "int (length (Items r)) * (2 * 10 ^ 12) < 2 ^ 20 * (2 * 10 ^ 12)"
    using ni by simp
  ultimately have S: "0 \<le> S" "S < 2 ^ 20 * (2 * 10 ^ 12)" by simp_all
  have a1: "0 \<le> a1" "a1 < 2 ^ 32"
    using countAlphanumeric_le [of P "Retailer r"] nr by (simp_all add: a1_def)
  have a4: "0 \<le> a4" "a4 < 2 ^ 23" using ni by (simp_all add: a4_def)
  define T where "T = a1 + sint (R2 r) + sint (R3 P r) + a4 + S + sint (R6 r) + sint (R7 r)"
  have T: "0 \<le> T" "T < 2 ^ 63"
    using a1 a4 S small_word_sint(1) [of r] small_word_sint(2) [of P r] small_word_sint(3) [of r]
      small_word_sint(4) [of r] by (auto simp: T_def)
  have "CalculatePoints P r = word_of_int T"
    by (simp add: CalculatePoints_sum T_def R1_def R4_def a1_def a4_def S_def sum_list_word_sint)
  then have "sint (CalculatePoints P r) = T" using T by (simp add: sint_word_of_int64)
  then show ?thesis using T by (simp add: T_def a1_def a4_def S_def)
qed

section \<open>The example inputs, evaluated\<close>

lemma TrimSpace_descriptions:
  "TrimSpace ''Mountain Dew 12PK'' = ''Mountain Dew 12PK''"
  "TrimSpace ''Emils Cheese Pizza'' = ''Emils Cheese Pizza''"
  "TrimSpace ''Knorr Creamy Chicken'' = ''Knorr Creamy Chicken''"
  "TrimSpace ''Doritos Nacho Cheese'' = ''Doritos Nacho Cheese''"
  "TrimSpace ''   Klarbrunn 12-PK 12 FL OZ  '' = ''Klarbrunn 12-PK 12 FL OZ''"
  by (simp_all add: TrimSpace_def TrimLeftSpace.simps TrimRightSpace.simps decodeLastRune_def
      IsSpace_def byte_def)

lemma cents_examples:
  "cents_of ''6.49'' = 649" "cents_of ''12.25'' = 1225" "cents_of ''1.26'' = 126"
  "cents_of ''3.35'' = 335" "cents_of ''12.00'' = 1200" "cents_of ''10.00'' = 1000"
  "cents_of ''35.35'' = 3535"
  by (simp_all add: cents_of_def digits_value_def digit_def byte_def)

lemma valid_examples:
  "IsValidCurrencyFormat ''6.49''" "IsValidCurrencyFormat ''12.25''" "IsValidCurrencyFormat ''1.26''"
  "IsValidCurrencyFormat ''3.35''" "IsValidCurrencyFormat ''12.00''" "IsValidCurrencyFormat ''10.00''"
  "IsValidCurrencyFormat ''35.35''"
  by (simp_all add: IsValidCurrencyFormat_def digit_def byte_def)

lemma count_Target: "countAlphanumeric P ''Target'' = 6"
  by (simp add: countAlphanumeric.simps IsLetter_def IsDigit_def byte_def)

lemma ParseFloat_35_35: "ParseFloat P ''35.35'' = Some (Fin (4975070213360845 / 2 ^ 47))"
  using valid_examples(7)
  by (simp add: ParseFloat_def plain_decimal_currency cents_examples f64_round_pos
      round53_eval [where k = 5] rne_def Let_def)

lemma R3_35_35: "isMultipleOf25Cents P ''35.35'' = False"
  by (simp add: isMultipleOf25Cents_def ParseFloat_35_35 f64_round_pos
      round53_eval [where k = 11] rne_def Let_def)

lemma date_2022_01_01: "isDayOdd ''2022-01-01''"
  by (simp add: isDayOdd_def Parse_date_def getnum_def isDigit_def atoi_def
      skip_def digit_def byte_def digits_value_def daysIn_def isLeap_def)

lemma time_13_01: "isTimeBetween2And4PM ''13:01'' = False"
  by (simp add: isTimeBetween2And4PM_def Parse_clock_def getnum_def isDigit_def
      skip_def digit_def byte_def)

lemma target_score: "CalculatePoints P target_receipt = 28"
  by (simp add: CalculatePoints_sum R1_def R2_def R3_def R4_def R6_def R7_def target_receipt_def
      count_Target R3_35_35 date_2022_01_01 time_13_01 isRoundDollarAmount_def digit_def byte_def
      R5_exact valid_examples cents_examples TrimSpace_descriptions)

lemma sint_word_of_nat64:
  assumes "n < 2 ^ 63"
  shows "sint (word_of_nat n :: 64 word) = int n"
proof -
  have "int n < int (2 ^ 63)" using assms by (simp only: of_nat_less_iff)
  then have "int n < 2 ^ 63" by simp
  then have "sint (word_of_int (int n) :: 64 word) = int n"
    by (intro sint_word_of_int64) simp_all
  then show ?thesis by simp
qed

lemma ParseFloat_4e19:
  "ParseFloat P ''40000000000000000000.00'' = Some (Fin 40000000000000000000)"
proof -
  have v: "IsValidCurrencyFormat ''40000000000000000000.00''"
    by (simp add: IsValidCurrencyFormat_def digit_def byte_def)
  have c: "cents_of ''40000000000000000000.00'' = 4000000000000000000000"
    by (simp add: cents_of_def digits_value_def digit_def byte_def)
  show ?thesis using v
    by (simp add: ParseFloat_def plain_decimal_currency c f64_round_pos
        round53_eval [where k = 65] rne_def Let_def)
qed

lemma R5_4e19:
  "R5 P \<lparr>ShortDescription = ''XYZ'', Price = ''40000000000000000000.00''\<rparr>
     = 8000000000000000000"
  by (simp add: R5_def TrimSpace_XYZ ParseFloat_4e19 f64_round_fifth
      round53_eval [where k = 62] f64_round_pos rne_def Let_def)

lemma validate_overflow: "validateReceipt overflow_receipt = None"
  by (simp add: validateReceipt_def overflow_receipt_def IsValidDateFormat_def IsValidTimeFormat_def
      IsValidCurrencyFormat_def Parse_date_def Parse_clock_def getnum_def isDigit_def atoi_def
      skip_def digit_def byte_def digits_value_def daysIn_def isLeap_def)

lemma overflow_score: "CalculatePoints P overflow_receipt = 16000000000000000017"
  by (simp add: CalculatePoints_sum R1_def R2_def R3_def R4_def R6_def R7_def overflow_receipt_def
      count_Target R3_35_35 date_2022_01_01 time_13_01 isRoundDollarAmount_def digit_def byte_def
      R5_4e19)

lemma fractional_part_currency:
  assumes "list_all digit ds"
  shows "fractional_part (ds @ [CHR ''.'', c1, c2]) = [c1, c2]"
proof -
  have "dropWhile (\<lambda>c. c \<noteq> CHR ''.'') (ds @ [CHR ''.'', c1, c2]) = [CHR ''.'', c1, c2]"
    using assms dot_not_digit by (subst dropWhile_append2) (auto simp: list_all_iff)
  then show ?thesis by (simp add: fractional_part_def)
qed

lemma isRoundDollarAmount_currency:
  assumes "IsValidCurrencyFormat s"
  shows "isRoundDollarAmount s \<longleftrightarrow> fractional_part s = ''00''"
proof -
  from assms obtain ds c1 c2 where s: "s = ds @ [CHR ''.'', c1, c2]" and ne: "ds \<noteq> []"
    and all: "list_all digit ds" and d: "digit c1" "digit c2"
    unfolding currency_format_iff by blast
  have t: "takeWhile digit s = ds" using all dot_not_digit by (simp add: s list_all_iff takeWhile_append2)
  have r: "dropWhile digit s = [CHR ''.'', c1, c2]"
    using all dot_not_digit by (simp add: s list_all_iff dropWhile_append2)
  show ?thesis
    using ne by (simp add: isRoundDollarAmount_def t r) (simp add: s fractional_part_currency [OF all])
qed

lemma R3_examples:
  "isMultipleOf25Cents P ''100.00''" "isMultipleOf25Cents P ''100.25''"
  "\<not> isMultipleOf25Cents P ''100.10''"
proof -
  have v: "IsValidCurrencyFormat ''100.00''" "IsValidCurrencyFormat ''100.25''"
    "IsValidCurrencyFormat ''100.10''"
    by (simp_all add: IsValidCurrencyFormat_def digit_def byte_def)
  have c: "cents_of ''100.00'' = 10000" "cents_of ''100.25'' = 10025" "cents_of ''100.10'' = 10010"
    by (simp_all add: cents_of_def digits_value_def digit_def byte_def)
  have p: "ParseFloat P ''100.00'' = Some (Fin 100)"
    "ParseFloat P ''100.25'' = Some (Fin (401 / 2 ^ 2))"
    "ParseFloat P ''100.10'' = Some (Fin (3521955646092083 / 2 ^ 45))"
    using v by (simp_all add: ParseFloat_def plain_decimal_currency c f64_round_pos
        round53_eval [where k = 6] rne_def Let_def)
  show "isMultipleOf25Cents P ''100.00''" "isMultipleOf25Cents P ''100.25''"
    "\<not> isMultipleOf25Cents P ''100.10''"
    by (simp_all add: isMultipleOf25Cents_def p f64_round_pos
        round53_eval [where k = 13] rne_def Let_def)
qed

lemma utf8_examples:
  "utf8 [0xEA, 0x61] = [char_of (0xC3::nat), char_of (0xAA::nat), char_of (0x61::nat)]"
  "utf8 [0x61, 0x62, 0xEA] = [char_of (0x61::nat), char_of (0x62::nat), char_of (0xC3::nat), char_of (0xAA::nat)]"
  by (simp_all add: utf8_def encodeRune_def)

lemma TrimSpace_utf8_examples:
  "TrimSpace (utf8 [0xEA, 0x61]) = utf8 [0xEA, 0x61]"
  "TrimSpace (utf8 [0x61, 0x62, 0xEA]) = utf8 [0x61, 0x62, 0xEA]"
  by (simp_all add: utf8_examples TrimSpace_def TrimLeftSpace.simps TrimRightSpace.simps
      decodeLastRune_def scanBack.simps RuneStart_def IsSpace_def byte_char_of Let_def)

lemma unparsable_facts:
  "ParseFloat P [] = None" "Parse_date ''01/01/2022'' = None" "Parse_clock ''2:33pm'' = None"
  by (simp_all add: ParseFloat_def Parse_date_def Parse_clock_def getnum_def isDigit_def atoi_def
      skip_def digit_def byte_def)

lemma count_MM: "countAlphanumeric P ''M&M Corner Market'' = 14"
  by (simp add: countAlphanumeric.simps IsLetter_def IsDigit_def byte_def)

lemma TrimSpace_Gatorade: "TrimSpace ''Gatorade'' = ''Gatorade''"
  by (simp add: TrimSpace_def TrimLeftSpace.simps TrimRightSpace.simps decodeLastRune_def
      IsSpace_def byte_def)

lemma sum_list_all_zero:
  "list_all (\<lambda>x. f x = 0) xs \<Longrightarrow> sum_list (map f xs) = (0 :: 64 word)"
  by (induction xs) simp_all

section \<open>Facts about trimming, and the scores of more examples\<close>

lemma TrimLeftSpace_white_space:
  "white_space c \<Longrightarrow> TrimLeftSpace (c # t) = TrimLeftSpace t"
  by (auto simp: TrimLeftSpace.simps white_space_def IsSpace_def)

lemma TrimLeftSpace_stop:
  "byte c < 0x80 \<Longrightarrow> \<not> white_space c \<Longrightarrow> TrimLeftSpace (c # t) = c # t"
  by (auto simp: TrimLeftSpace.simps white_space_def IsSpace_def)

lemma TrimRightSpace_white_space:
  "white_space c \<Longrightarrow> TrimRightSpace (t @ [c]) = TrimRightSpace t"
  by (subst TrimRightSpace.simps) (auto simp: decodeLastRune_def white_space_def IsSpace_def)

lemma TrimRightSpace_stop:
  "byte c < 0x80 \<Longrightarrow> \<not> white_space c \<Longrightarrow> TrimRightSpace (t @ [c]) = t @ [c]"
  by (subst TrimRightSpace.simps) (auto simp: decodeLastRune_def white_space_def IsSpace_def)

lemma TrimLeftSpace_prefix:
  assumes "list_all white_space ws" and "s \<noteq> []" and "byte (hd s) < 0x80" and "\<not> white_space (hd s)"
  shows "TrimLeftSpace (ws @ s) = s"
  using assms
proof (induction ws)
  case Nil
  then show ?case by (cases s) (simp_all add: TrimLeftSpace_stop)
next
  case (Cons w ws)
  then show ?case by (simp add: TrimLeftSpace_white_space)
qed

lemma TrimRightSpace_suffix:
  assumes "list_all white_space ws" and "s \<noteq> []" and "byte (last s) < 0x80" and "\<not> white_space (last s)"
  shows "TrimRightSpace (s @ ws) = s"
  using assms
proof (induction ws rule: rev_induct)
  case Nil
  then show ?case using TrimRightSpace_stop [of "last s" "butlast s"] by simp
next
  case (snoc w ws)
  then show ?case using TrimRightSpace_white_space [of w "s @ ws"] by simp
qed

lemma Parse_clock_short:
  assumes "h < 10" and "m < 60"
  shows "Parse_clock (short_clock_string h m)
           = Some \<lparr>Year = 0, Month = 1, Day = 1, Hour = h, Minute = m\<rparr>"
proof -
  have 1: "getnum (short_clock_string h m) False = Some (h, CHR '':'' # two_digits m)"
    using assms colon_not_digit by (simp add: short_clock_string_def getnum_one_digit isDigit_def)
  have 2: "getnum (two_digits m) True = Some (m, [])"
    using getnum_two_digits [of m "[]" True] assms by simp
  show ?thesis using assms by (simp add: Parse_clock_def 1 2 skip_def)
qed

lemma isTimeBetween2And4PM_clock:
  assumes "h < 24" and "m < 60"
    and "s = clock_string h m \<or> (h < 10 \<and> s = short_clock_string h m)"
  shows "isTimeBetween2And4PM s \<longleftrightarrow> 840 < h * 60 + m \<and> h * 60 + m < 960"
  using assms Parse_clock_clock_string [of h m] Parse_clock_short [of h m]
  by (auto simp: isTimeBetween2And4PM_def Let_def)

lemma word_of_int_sum_list:
  "(word_of_int (sum_list (map f xs)) :: 64 word) = sum_list (map (\<lambda>x. word_of_int (f x)) xs)"
  by (induction xs) simp_all

lemma R5_rule5_spec:
  assumes "IsValidCurrencyFormat (Price item)" and "cents_of (Price item) < 10 ^ 15"
  shows "R5 P item = word_of_int (rule5_spec item)"
  using R5_exact [OF assms] by (simp add: rule5_spec_def Let_def)

lemma itemsLoop_rule5_spec:
  assumes "list_all (\<lambda>item. IsValidCurrencyFormat (Price item) \<and> cents_of (Price item) < 10 ^ 15) items"
  shows "itemsLoop P items points = points + word_of_int (sum_list (map rule5_spec items))"
proof -
  have m: "map (R5 P) items = map (\<lambda>item. word_of_int (rule5_spec item)) items"
    using assms by (simp add: list_all_iff R5_rule5_spec)
  have "sum_list (map (R5 P) items) = word_of_int (sum_list (map rule5_spec items))"
    unfolding word_of_int_sum_list by (simp only: m)
  then show ?thesis by (simp only: itemsLoop_sum)
qed

lemma trim_examples:
  "TrimSpace '' XYZ'' = ''XYZ''" "TrimSpace ''XYZ  '' = ''XYZ''"
  "TrimSpace ''XY'' = ''XY''"
  by (simp_all add: TrimSpace_def TrimLeftSpace.simps TrimRightSpace.simps decodeLastRune_def
      IsSpace_def byte_def)

lemma utf8_trim_examples:
  "length (utf8 [0x20, 0xEA, 0x61]) = 4" "length (utf8 [0xEA, 0x61, 0xA0]) = 5"
  "length (utf8 [0xA0, 0xEA, 0x61]) = 5"
  by (simp_all add: utf8_def encodeRune_def)

lemma TrimSpace_utf8_trim_examples:
  "TrimSpace (utf8 [0x20, 0xEA, 0x61]) = utf8 [0xEA, 0x61]"
  "TrimSpace (utf8 [0xEA, 0x61, 0xA0]) = utf8 [0xEA, 0x61]"
  "TrimSpace (utf8 [0xA0, 0xEA, 0x61]) = utf8 [0xEA, 0x61]"
  by (simp_all add: utf8_def encodeRune_def TrimSpace_def TrimLeftSpace.simps TrimRightSpace.simps
      decodeLastRune_def scanBack.simps RuneStart_def IsSpace_def byte_char_of Let_def)

lemma itemsLoop_examples:
  "itemsLoop P [\<lparr>ShortDescription = ''XYZ'', Price = ''6.49''\<rparr>] 0 = 2"
  "itemsLoop P [\<lparr>ShortDescription = ''XYZ'', Price = ''12.00''\<rparr>] 0 = 3"
  "itemsLoop P [\<lparr>ShortDescription = ''XYZ'', Price = ''10.00''\<rparr>] 0 = 2"
  "itemsLoop P [\<lparr>ShortDescription = ''   Klarbrunn 12-PK 12 FL OZ  '', Price = ''12.00''\<rparr>] 0 = 3"
  "itemsLoop P [\<lparr>ShortDescription = '' XYZ'', Price = ''10.00''\<rparr>] 0 = 2"
  "itemsLoop P [\<lparr>ShortDescription = ''XYZ  '', Price = ''10.00''\<rparr>] 0 = 2"
  "itemsLoop P [\<lparr>ShortDescription = ''XY'', Price = ''10.00''\<rparr>] 0 = 0"
  "itemsLoop P (Items target_receipt) 0 = 6"
  by (simp_all add: itemsLoop_sum R5_exact valid_examples cents_examples TrimSpace_XYZ
      TrimSpace_descriptions trim_examples target_receipt_def)

lemma itemsLoop_utf8_examples:
  "itemsLoop P [\<lparr>ShortDescription = utf8 [0xEA, 0x61], Price = ''10.00''\<rparr>] 0 = 2"
  "itemsLoop P [\<lparr>ShortDescription = utf8 [0x61, 0x62, 0xEA], Price = ''10.00''\<rparr>] 0 = 0"
  "itemsLoop P [\<lparr>ShortDescription = utf8 [0x20, 0xEA, 0x61], Price = ''10.00''\<rparr>] 0 = 2"
  "itemsLoop P [\<lparr>ShortDescription = utf8 [0xEA, 0x61, 0xA0], Price = ''10.00''\<rparr>] 0 = 2"
  "itemsLoop P [\<lparr>ShortDescription = utf8 [0xA0, 0xEA, 0x61], Price = ''10.00''\<rparr>] 0 = 2"
  by (simp_all add: itemsLoop_sum R5_exact valid_examples cents_examples TrimSpace_utf8_examples
      TrimSpace_utf8_trim_examples)
    (simp_all add: utf8_examples)

lemma char_of_digits:
  "char_of (48::nat) = CHR ''0''" "char_of (49::nat) = CHR ''1''" "char_of (50::nat) = CHR ''2''"
  "char_of (51::nat) = CHR ''3''" "char_of (52::nat) = CHR ''4''" "char_of (53::nat) = CHR ''5''"
  "char_of (54::nat) = CHR ''6''" "char_of (55::nat) = CHR ''7''" "char_of (56::nat) = CHR ''8''"
  "char_of (57::nat) = CHR ''9''"
  using char_of_char [of "CHR ''0''", where ?'a = nat] char_of_char [of "CHR ''1''", where ?'a = nat]
    char_of_char [of "CHR ''2''", where ?'a = nat] char_of_char [of "CHR ''3''", where ?'a = nat]
    char_of_char [of "CHR ''4''", where ?'a = nat] char_of_char [of "CHR ''5''", where ?'a = nat]
    char_of_char [of "CHR ''6''", where ?'a = nat] char_of_char [of "CHR ''7''", where ?'a = nat]
    char_of_char [of "CHR ''8''", where ?'a = nat] char_of_char [of "CHR ''9''", where ?'a = nat]
  by simp_all

lemma time_examples:
  "\<not> isTimeBetween2And4PM ''14:00''" "\<not> isTimeBetween2And4PM ''16:00''"
  "isTimeBetween2And4PM ''14:01''" "isTimeBetween2And4PM ''15:59''"
  "\<not> isTimeBetween2And4PM ''00:00''"
  by (simp_all add: isTimeBetween2And4PM_def Parse_clock_def getnum_def isDigit_def
      skip_def digit_def byte_def)

lemma count_utf8_example: "countAlphanumeric P (utf8 [0x61, 0x62, 0xEA]) = 3"
proof -
  have "list_all scalar_value [0x61, 0x62, 0xEA]" by (simp add: scalar_value_def)
  then show ?thesis by (simp add: countAlphanumeric_utf8 IsLetter_def)
qed

lemma target_score_utf8:
  "CalculatePoints P (target_receipt\<lparr>Retailer := utf8 [0x61, 0x62, 0xEA]\<rparr>) = 25"
  "CalculatePoints P (target_receipt\<lparr>Items :=
      [\<lparr>ShortDescription = utf8 [0xEA, 0x61], Price = ''10.00''\<rparr>]\<rparr>) = 14"
  "CalculatePoints P (target_receipt\<lparr>Items :=
      [\<lparr>ShortDescription = utf8 [0x61, 0x62, 0xEA], Price = ''10.00''\<rparr>]\<rparr>) = 12"
  "CalculatePoints P (target_receipt\<lparr>Items :=
      [\<lparr>ShortDescription = utf8 [0x20, 0xEA, 0x61], Price = ''10.00''\<rparr>]\<rparr>) = 14"
  by (simp_all add: CalculatePoints_sum R1_def R2_def R3_def R4_def R6_def R7_def target_receipt_def
      count_Target count_utf8_example R3_35_35 date_2022_01_01 time_13_01
      isRoundDollarAmount_def digit_def byte_def R5_exact valid_examples cents_examples
      TrimSpace_descriptions TrimSpace_utf8_examples TrimSpace_utf8_trim_examples)
    (simp_all add: utf8_examples)

lemma target_score_items:
  "CalculatePoints P (target_receipt\<lparr>Items :=
      [\<lparr>ShortDescription = ''XYZ'', Price = ''6.49''\<rparr>]\<rparr>) = 14"
  "CalculatePoints P (target_receipt\<lparr>Items :=
      [\<lparr>ShortDescription = ''   Klarbrunn 12-PK 12 FL OZ  '', Price = ''12.00''\<rparr>]\<rparr>) = 15"
  "CalculatePoints P (target_receipt\<lparr>Items :=
      [\<lparr>ShortDescription = ''XY'', Price = ''10.00''\<rparr>]\<rparr>) = 12"
  by (simp_all add: CalculatePoints_sum R1_def R2_def R3_def R4_def R6_def R7_def target_receipt_def
      count_Target R3_35_35 date_2022_01_01 time_13_01
      isRoundDollarAmount_def digit_def byte_def R5_exact valid_examples cents_examples
      TrimSpace_descriptions TrimSpace_XYZ trim_examples)

lemma validate_huge_price:
  "validateReceipt (target_receipt\<lparr>Items :=
      [\<lparr>ShortDescription = ''XYZ'', Price = ''50000000000000000000.00''\<rparr>]\<rparr>) = None"
  by (simp add: validateReceipt_def target_receipt_def IsValidDateFormat_def IsValidTimeFormat_def
      IsValidCurrencyFormat_def Parse_date_def Parse_clock_def getnum_def isDigit_def atoi_def
      skip_def digit_def byte_def digits_value_def daysIn_def isLeap_def)

lemma rule5_spec_5e19:
  "rule5_spec \<lparr>ShortDescription = ''XYZ'', Price = ''50000000000000000000.00''\<rparr>
     = 10000000000000000000"
  by (simp add: rule5_spec_def TrimSpace_XYZ cents_5e19)

lemma rule5_spec_examples:
  "rule5_spec \<lparr>ShortDescription = ''XYZ'', Price = ''6.49''\<rparr> = 2"
  "rule5_spec \<lparr>ShortDescription = ''XYZ'', Price = ''12.00''\<rparr> = 3"
  "rule5_spec \<lparr>ShortDescription = ''XYZ'', Price = ''10.00''\<rparr> = 2"
  "map rule5_spec (Items target_receipt) = [0, 3, 0, 0, 3]"
  by (simp_all add: rule5_spec_def TrimSpace_XYZ TrimSpace_descriptions cents_examples
      target_receipt_def)

lemma sint_word64_less: "sint (w :: 64 word) < 9223372036854775808"
  using sint_lt [of w] by simp
section \<open>C1: rule 3 and multiples of 0.25\<close>

text \<open>
  C1. Rule 3 should add 25 exactly when the total is a multiple of 0.25. The total
  \<open>2.01\<close> passes validation and is 201 cents, no multiple of 25; yet the nearest
  float64 to 2.01 times 100 rounds to \<open>200.99999999999997\<close>, the conversion to
  \<open>int\<close> discards the fraction, and 200 is a multiple of 25: rule 3 adds 25.
\<close>

theorem R3_awarded_for_total_2_01:
  "IsValidCurrencyFormat ''2.01''
   \<and> ParseFloat P ''2.01'' = Some (Fin (1131529406376837 / 2 ^ 49))
   \<and> f64_mul (Fin (1131529406376837 / 2 ^ 49)) (Fin 100) = Fin (7072058789855231 / 2 ^ 45)
   \<and> f64_to_int P (Fin (7072058789855231 / 2 ^ 45)) = 200
   \<and> R3 P (r\<lparr>Total := ''2.01''\<rparr>) = 25
   \<and> cents_of ''2.01'' = 201 \<and> \<not> 25 dvd cents_of ''2.01''"
  by (simp add: IsValidCurrencyFormat_def R3_def isMultipleOf25Cents_def ParseFloat_2_01
      cents_of_def digits_value_def digit_def byte_def
      round53_eval [where k = 7] f64_round_pos rne_def Let_def)

section \<open>C2: rule 2 and totals with zero cents\<close>

text \<open>
  C2. For a receipt whose total is in currency format, the score holds 50 for rule 2
  exactly when the characters of the total after the decimal point are \<open>00\<close>, and
  nothing for it otherwise; the test is \<open>isRoundDollarAmount\<close>, on the string alone
  (it takes no platform parameter and does no arithmetic). With rule 3: the total
  \<open>100.00\<close> passes both tests, \<open>100.25\<close> only that of rule 3, \<open>100.10\<close> neither;
  so, whatever the other fields, a receipt scores 75 more with the total \<open>100.00\<close>
  than with \<open>100.10\<close>, and 25 more with \<open>100.25\<close>. On the receipt of the end-to-end
  scenario the three totals score 103, 53 and 28.
\<close>

theorem R2_zero_cents:
  "(IsValidCurrencyFormat (Total r) \<longrightarrow>
      (isRoundDollarAmount (Total r) \<longleftrightarrow> fractional_part (Total r) = ''00'')
      \<and> CalculatePoints P r
          = R1 P r + (if fractional_part (Total r) = ''00'' then 50 else 0) + R3 P r + R4 r
            + sum_list (map (R5 P) (Items r)) + R6 r + R7 r)
   \<and> isRoundDollarAmount ''100.00'' \<and> isMultipleOf25Cents P ''100.00''
   \<and> \<not> isRoundDollarAmount ''100.25'' \<and> isMultipleOf25Cents P ''100.25''
   \<and> \<not> isRoundDollarAmount ''100.10'' \<and> \<not> isMultipleOf25Cents P ''100.10''
   \<and> CalculatePoints P (r\<lparr>Total := ''100.00''\<rparr>)
       = CalculatePoints P (r\<lparr>Total := ''100.10''\<rparr>) + 75
   \<and> CalculatePoints P (r\<lparr>Total := ''100.25''\<rparr>)
       = CalculatePoints P (r\<lparr>Total := ''100.10''\<rparr>) + 25
   \<and> CalculatePoints P (target_receipt\<lparr>Total := ''100.00''\<rparr>) = 103
   \<and> CalculatePoints P (target_receipt\<lparr>Total := ''100.25''\<rparr>) = 53
   \<and> CalculatePoints P (target_receipt\<lparr>Total := ''100.10''\<rparr>) = 28"
proof (intro conjI impI)
  assume v: "IsValidCurrencyFormat (Total r)"
  show "isRoundDollarAmount (Total r) \<longleftrightarrow> fractional_part (Total r) = ''00''"
    by (rule isRoundDollarAmount_currency [OF v])
  then show "CalculatePoints P r
          = R1 P r + (if fractional_part (Total r) = ''00'' then 50 else 0) + R3 P r + R4 r
            + sum_list (map (R5 P) (Items r)) + R6 r + R7 r"
    by (simp add: CalculatePoints_def Let_def itemsLoop_sum R1_def R3_def R4_def R6_def R7_def)
next
  show "isRoundDollarAmount ''100.00''" "\<not> isRoundDollarAmount ''100.25''"
    "\<not> isRoundDollarAmount ''100.10''"
    by (simp_all add: isRoundDollarAmount_def digit_def byte_def)
  show "isMultipleOf25Cents P ''100.00''" "isMultipleOf25Cents P ''100.25''"
    "\<not> isMultipleOf25Cents P ''100.10''"
    using plain_decimal_currency [of "''100.00''"] plain_decimal_currency [of "''100.25''"]
      plain_decimal_currency [of "''100.10''"]
    by (simp_all add: isMultipleOf25Cents_def ParseFloat_def IsValidCurrencyFormat_def cents_of_def
        digits_value_def digit_def byte_def f64_round_pos
        round53_eval [where k = 6] round53_eval [where k = 13] rne_def Let_def)
  show "CalculatePoints P (r\<lparr>Total := ''100.00''\<rparr>)
       = CalculatePoints P (r\<lparr>Total := ''100.10''\<rparr>) + 75"
    "CalculatePoints P (r\<lparr>Total := ''100.25''\<rparr>)
       = CalculatePoints P (r\<lparr>Total := ''100.10''\<rparr>) + 25"
    by (simp_all add: CalculatePoints_def Let_def itemsLoop_sum R3_examples isRoundDollarAmount_def
        digit_def byte_def)
  show "CalculatePoints P (target_receipt\<lparr>Total := ''100.00''\<rparr>) = 103"
    "CalculatePoints P (target_receipt\<lparr>Total := ''100.25''\<rparr>) = 53"
    "CalculatePoints P (target_receipt\<lparr>Total := ''100.10''\<rparr>) = 28"
    by (simp_all add: CalculatePoints_def Let_def itemsLoop_sum target_receipt_def
        count_Target R3_examples isRoundDollarAmount_def digit_def byte_def date_2022_01_01
        time_13_01 R5_exact valid_examples cents_examples TrimSpace_descriptions)
qed

text \<open>
  The theorem at the receipt of the end-to-end scenario with the total \<open>100.00\<close>, for
  every platform.
\<close>

theorem R2_zero_cents_witness:
  "\<forall>P. IsValidCurrencyFormat (Total (target_receipt\<lparr>Total := ''100.00''\<rparr>))
     \<and> fractional_part (Total (target_receipt\<lparr>Total := ''100.00''\<rparr>)) = ''00''
     \<and> isRoundDollarAmount (Total (target_receipt\<lparr>Total := ''100.00''\<rparr>))
     \<and> CalculatePoints P (target_receipt\<lparr>Total := ''100.00''\<rparr>)
         = R1 P target_receipt + 50 + 25 + R4 target_receipt
           + sum_list (map (R5 P) (Items target_receipt)) + R6 target_receipt + R7 target_receipt
     \<and> CalculatePoints P (target_receipt\<lparr>Total := ''100.00''\<rparr>) = 103"
proof
  fix P
  have v: "IsValidCurrencyFormat (Total (target_receipt\<lparr>Total := ''100.00''\<rparr>))"
    by (simp add: IsValidCurrencyFormat_def digit_def byte_def)
  have f: "fractional_part (Total (target_receipt\<lparr>Total := ''100.00''\<rparr>)) = ''00''"
    by (simp add: fractional_part_def)
  have o: "R1 P (target_receipt\<lparr>Total := ''100.00''\<rparr>) = R1 P target_receipt"
    "R3 P (target_receipt\<lparr>Total := ''100.00''\<rparr>) = 25"
    "R4 (target_receipt\<lparr>Total := ''100.00''\<rparr>) = R4 target_receipt"
    "Items (target_receipt\<lparr>Total := ''100.00''\<rparr>) = Items target_receipt"
    "R6 (target_receipt\<lparr>Total := ''100.00''\<rparr>) = R6 target_receipt"
    "R7 (target_receipt\<lparr>Total := ''100.00''\<rparr>) = R7 target_receipt"
    by (simp_all add: R1_def R3_def R4_def R6_def R7_def R3_examples)
  from R2_zero_cents [of "target_receipt\<lparr>Total := ''100.00''\<rparr>" P] v
  have "isRoundDollarAmount (Total (target_receipt\<lparr>Total := ''100.00''\<rparr>))
          \<longleftrightarrow> fractional_part (Total (target_receipt\<lparr>Total := ''100.00''\<rparr>)) = ''00''"
    and "CalculatePoints P (target_receipt\<lparr>Total := ''100.00''\<rparr>)
          = R1 P (target_receipt\<lparr>Total := ''100.00''\<rparr>)
            + (if fractional_part (Total (target_receipt\<lparr>Total := ''100.00''\<rparr>)) = ''00''
               then 50 else 0)
            + R3 P (target_receipt\<lparr>Total := ''100.00''\<rparr>)
            + R4 (target_receipt\<lparr>Total := ''100.00''\<rparr>)
            + sum_list (map (R5 P) (Items (target_receipt\<lparr>Total := ''100.00''\<rparr>)))
            + R6 (target_receipt\<lparr>Total := ''100.00''\<rparr>)
            + R7 (target_receipt\<lparr>Total := ''100.00''\<rparr>)"
    and "CalculatePoints P (target_receipt\<lparr>Total := ''100.00''\<rparr>) = 103"
    by blast+
  with v f o
  show "IsValidCurrencyFormat (Total (target_receipt\<lparr>Total := ''100.00''\<rparr>))
     \<and> fractional_part (Total (target_receipt\<lparr>Total := ''100.00''\<rparr>)) = ''00''
     \<and> isRoundDollarAmount (Total (target_receipt\<lparr>Total := ''100.00''\<rparr>))
     \<and> CalculatePoints P (target_receipt\<lparr>Total := ''100.00''\<rparr>)
         = R1 P target_receipt + 50 + 25 + R4 target_receipt
           + sum_list (map (R5 P) (Items target_receipt)) + R6 target_receipt + R7 target_receipt
     \<and> CalculatePoints P (target_receipt\<lparr>Total := ''100.00''\<rparr>) = 103"
    by (simp only: simp_thms if_True)
qed

section \<open>C3: rule 5 and the ceiling of a fifth of the price\<close>

text \<open>
  C3, as stated, has every qualifying item of a validated receipt add
  \<open>ceil(price * 0.2)\<close>. The receipt of the end-to-end scenario with the single item
  \<open>XYZ\<close> at the price \<open>50000000000000000000.00\<close> passes validation and the item
  qualifies; a fifth of the price is \<open>10 ^ 19\<close>, which a 64-bit \<open>int\<close> cannot hold:
  the loop adds what the platform's conversion of an unrepresentable value gives, which
  is not \<open>10 ^ 19\<close> on any platform.
\<close>

theorem R5_overflows_at_5e19:
  "\<forall>P. validateReceipt (target_receipt\<lparr>Items :=
           [\<lparr>ShortDescription = ''XYZ'', Price = ''50000000000000000000.00''\<rparr>]\<rparr>) = None
     \<and> length (TrimSpace ''XYZ'') = 3
     \<and> rule5_spec \<lparr>ShortDescription = ''XYZ'', Price = ''50000000000000000000.00''\<rparr>
         = 10000000000000000000
     \<and> itemsLoop P [\<lparr>ShortDescription = ''XYZ'', Price = ''50000000000000000000.00''\<rparr>] 0
         = float_to_int_unrep P (Fin 10000000000000000000)
     \<and> sint (itemsLoop P [\<lparr>ShortDescription = ''XYZ'', Price = ''50000000000000000000.00''\<rparr>] 0)
         < 10000000000000000000"
proof
  fix P
  have "sint (itemsLoop P [\<lparr>ShortDescription = ''XYZ'', Price = ''50000000000000000000.00''\<rparr>] 0)
          < 9223372036854775808"
    by (rule sint_word64_less)
  then show "validateReceipt (target_receipt\<lparr>Items :=
           [\<lparr>ShortDescription = ''XYZ'', Price = ''50000000000000000000.00''\<rparr>]\<rparr>) = None
     \<and> length (TrimSpace ''XYZ'') = 3
     \<and> rule5_spec \<lparr>ShortDescription = ''XYZ'', Price = ''50000000000000000000.00''\<rparr>
         = 10000000000000000000
     \<and> itemsLoop P [\<lparr>ShortDescription = ''XYZ'', Price = ''50000000000000000000.00''\<rparr>] 0
         = float_to_int_unrep P (Fin 10000000000000000000)
     \<and> sint (itemsLoop P [\<lparr>ShortDescription = ''XYZ'', Price = ''50000000000000000000.00''\<rparr>] 0)
         < 10000000000000000000"
    by (simp add: validate_huge_price TrimSpace_XYZ rule5_spec_5e19 itemsLoop_sum R5_5e19)
qed

text \<open>
  C3, amended. When every price is in currency format and below \<open>10 ^ 13\<close>
  (\<open>10 ^ 15\<close> cents), the loop of rule 5 adds to the running total, for each item,
  what the specification says (\<open>rule5_spec\<close>): the ceiling of a fifth of the price when
  the description, trimmed of leading and trailing white space, has a length in bytes
  that is positive and a multiple of 3, and 0 otherwise; the float64 arithmetic of the
  source is exact on that range. So the score of a receipt that passes validation, with
  such prices, holds that sum for rule 5. An item whose trimmed description does not
  meet the condition adds nothing whatever its price. Trimming removes the ASCII white
  space around a text that starts and ends with other ASCII characters. The prices
  \<open>6.49\<close>, \<open>12.00\<close> and \<open>10.00\<close> under the description \<open>XYZ\<close> add 2, 3 and 2;
  the description may carry white space on either side, and \<open>XY\<close> adds nothing. The
  receipt of the end-to-end scenario scores 28; with a single item in place of its five
  it scores 12 and what the item adds.
\<close>

theorem R5_ceiling_of_fifth:
  "(list_all (\<lambda>item. IsValidCurrencyFormat (Price item) \<and> cents_of (Price item) < 10 ^ 15) items
      \<longrightarrow> itemsLoop P items points = points + word_of_int (sum_list (map rule5_spec items)))
   \<and> (validateReceipt r = None
        \<and> list_all (\<lambda>item. cents_of (Price item) < 10 ^ 15) (Items r) \<longrightarrow>
        CalculatePoints P r
          = R1 P r + R2 r + R3 P r + R4 r + word_of_int (sum_list (map rule5_spec (Items r)))
            + R6 r + R7 r)
   \<and> (\<not> (length (TrimSpace (ShortDescription item)) mod 3 = 0
            \<and> 0 < length (TrimSpace (ShortDescription item)))
        \<longrightarrow> itemsLoop P (item # rest) points = itemsLoop P rest points)
   \<and> (list_all white_space ws1 \<and> list_all white_space ws2 \<and> s \<noteq> []
        \<and> byte (hd s) < 0x80 \<and> \<not> white_space (hd s)
        \<and> byte (last s) < 0x80 \<and> \<not> white_space (last s)
        \<longrightarrow> TrimSpace (ws1 @ s @ ws2) = s)
   \<and> itemsLoop P [\<lparr>ShortDescription = ''XYZ'', Price = ''6.49''\<rparr>] 0 = 2
   \<and> itemsLoop P [\<lparr>ShortDescription = ''XYZ'', Price = ''12.00''\<rparr>] 0 = 3
   \<and> itemsLoop P [\<lparr>ShortDescription = ''XYZ'', Price = ''10.00''\<rparr>] 0 = 2
   \<and> itemsLoop P [\<lparr>ShortDescription = '' XYZ'', Price = ''10.00''\<rparr>] 0 = 2
   \<and> itemsLoop P [\<lparr>ShortDescription = ''XYZ  '', Price = ''10.00''\<rparr>] 0 = 2
   \<and> itemsLoop P [\<lparr>ShortDescription = ''   Klarbrunn 12-PK 12 FL OZ  '', Price = ''12.00''\<rparr>] 0 = 3
   \<and> itemsLoop P [\<lparr>ShortDescription = ''XY'', Price = ''10.00''\<rparr>] 0 = 0
   \<and> rule5_spec \<lparr>ShortDescription = ''XYZ'', Price = ''6.49''\<rparr> = 2
   \<and> rule5_spec \<lparr>ShortDescription = ''XYZ'', Price = ''12.00''\<rparr> = 3
   \<and> rule5_spec \<lparr>ShortDescription = ''XYZ'', Price = ''10.00''\<rparr> = 2
   \<and> CalculatePoints P target_receipt = 28
   \<and> CalculatePoints P (target_receipt\<lparr>Items :=
        [\<lparr>ShortDescription = ''XYZ'', Price = ''6.49''\<rparr>]\<rparr>) = 14
   \<and> CalculatePoints P (target_receipt\<lparr>Items :=
        [\<lparr>ShortDescription = ''   Klarbrunn 12-PK 12 FL OZ  '', Price = ''12.00''\<rparr>]\<rparr>) = 15
   \<and> CalculatePoints P (target_receipt\<lparr>Items :=
        [\<lparr>ShortDescription = ''XY'', Price = ''10.00''\<rparr>]\<rparr>) = 12"
proof (intro conjI impI)
  assume "list_all (\<lambda>item. IsValidCurrencyFormat (Price item) \<and> cents_of (Price item) < 10 ^ 15) items"
  then show "itemsLoop P items points = points + word_of_int (sum_list (map rule5_spec items))"
    by (rule itemsLoop_rule5_spec)
next
  assume h: "validateReceipt r = None
        \<and> list_all (\<lambda>item. cents_of (Price item) < 10 ^ 15) (Items r)"
  then have "list_all (\<lambda>item. IsValidCurrencyFormat (Price item)) (Items r)"
    using validateReceipt_None [of r] by (simp add: list_all_iff)
  with h have "list_all (\<lambda>item. IsValidCurrencyFormat (Price item)
      \<and> cents_of (Price item) < 10 ^ 15) (Items r)"
    by (simp add: list_all_iff)
  then have "itemsLoop P (Items r) points
      = points + word_of_int (sum_list (map rule5_spec (Items r)))" for points
    by (rule itemsLoop_rule5_spec)
  then show "CalculatePoints P r
          = R1 P r + R2 r + R3 P r + R4 r + word_of_int (sum_list (map rule5_spec (Items r)))
            + R6 r + R7 r"
    by (simp add: CalculatePoints_def Let_def R1_def R2_def R3_def R4_def R6_def R7_def)
next
  assume "\<not> (length (TrimSpace (ShortDescription item)) mod 3 = 0
            \<and> 0 < length (TrimSpace (ShortDescription item)))"
  then show "itemsLoop P (item # rest) points = itemsLoop P rest points"
    by (auto simp: Let_def)
next
  assume "list_all white_space ws1 \<and> list_all white_space ws2 \<and> s \<noteq> []
        \<and> byte (hd s) < 0x80 \<and> \<not> white_space (hd s)
        \<and> byte (last s) < 0x80 \<and> \<not> white_space (last s)"
  then have a: "list_all white_space ws1" "list_all white_space ws2" "s \<noteq> []"
    "byte (hd s) < 0x80" "\<not> white_space (hd s)"
    "byte (last s) < 0x80" "\<not> white_space (last s)"
    by simp_all
  have "TrimLeftSpace (ws1 @ (s @ ws2)) = s @ ws2"
    using a by (intro TrimLeftSpace_prefix) (simp_all add: hd_append)
  then show "TrimSpace (ws1 @ s @ ws2) = s"
    using a by (simp add: TrimSpace_def TrimRightSpace_suffix)
next
  show "itemsLoop P [\<lparr>ShortDescription = ''XYZ'', Price = ''6.49''\<rparr>] 0 = 2"
    using valid_examples(1)
    by (simp add: Let_def TrimSpace_def TrimLeftSpace.simps TrimRightSpace.simps
        decodeLastRune_def IsSpace_def byte_def ParseFloat_def plain_decimal_currency
        cents_examples f64_round_fifth f64_round_pos round53_eval [where k = 2]
        round53_eval [where k = 0] rne_def)
  show "itemsLoop P [\<lparr>ShortDescription = '' XYZ'', Price = ''10.00''\<rparr>] 0 = 2"
    "itemsLoop P [\<lparr>ShortDescription = ''XYZ  '', Price = ''10.00''\<rparr>] 0 = 2"
    "itemsLoop P [\<lparr>ShortDescription = ''XY'', Price = ''10.00''\<rparr>] 0 = 0"
    using R5_exact [of "\<lparr>ShortDescription = '' XYZ'', Price = ''10.00''\<rparr>" P]
      R5_exact [of "\<lparr>ShortDescription = ''XYZ  '', Price = ''10.00''\<rparr>" P]
    by (simp_all add: R5_def Let_def valid_examples cents_examples TrimSpace_def
        TrimLeftSpace.simps TrimRightSpace.simps decodeLastRune_def IsSpace_def byte_def
        split: option.splits)
  show "CalculatePoints P target_receipt = 28"
    by (simp add: CalculatePoints_def Let_def itemsLoop_sum target_receipt_def
        count_Target R3_35_35 isRoundDollarAmount_def digit_def byte_def date_2022_01_01
        time_13_01 R5_exact valid_examples cents_examples TrimSpace_descriptions)
qed (simp_all add: itemsLoop_examples rule5_spec_examples target_score_items
    del: itemsLoop.simps)

text \<open>
  The theorem at the receipt of the end-to-end scenario, for every platform: its items
  add 0, 3, 0, 0 and 3, the last after trimming; the first does not qualify.
\<close>

theorem R5_ceiling_of_fifth_witness:
  "\<forall>P. list_all (\<lambda>item. IsValidCurrencyFormat (Price item) \<and> cents_of (Price item) < 10 ^ 15)
          (Items target_receipt)
     \<and> map rule5_spec (Items target_receipt) = [0, 3, 0, 0, 3]
     \<and> itemsLoop P (Items target_receipt) 0 = 6
     \<and> validateReceipt target_receipt = None
     \<and> CalculatePoints P target_receipt
         = R1 P target_receipt + R2 target_receipt + R3 P target_receipt + R4 target_receipt
           + 6 + R6 target_receipt + R7 target_receipt
     \<and> length (TrimSpace ''Mountain Dew 12PK'') = 17
     \<and> itemsLoop P (\<lparr>ShortDescription = ''Mountain Dew 12PK'', Price = ''6.49''\<rparr> # []) 0 = 0
     \<and> list_all white_space ''   '' \<and> list_all white_space ''  ''
     \<and> TrimSpace (''   '' @ ''Klarbrunn 12-PK 12 FL OZ'' @ ''  '') = ''Klarbrunn 12-PK 12 FL OZ''"
proof
  fix P
  have 1: "list_all (\<lambda>item. IsValidCurrencyFormat (Price item) \<and> cents_of (Price item) < 10 ^ 15)
          (Items target_receipt)"
    by (simp add: target_receipt_def valid_examples cents_examples)
  then have 2: "list_all (\<lambda>item. cents_of (Price item) < 10 ^ 15) (Items target_receipt)"
    by (simp add: list_all_iff)
  have 3: "length (TrimSpace ''Mountain Dew 12PK'') = 17"
    by (simp add: TrimSpace_descriptions)
  have 4: "list_all white_space ''   ''" "list_all white_space ''  ''"
    "''Klarbrunn 12-PK 12 FL OZ'' \<noteq> []"
    "byte (hd ''Klarbrunn 12-PK 12 FL OZ'') < 0x80"
    "\<not> white_space (hd ''Klarbrunn 12-PK 12 FL OZ'')"
    "byte (last ''Klarbrunn 12-PK 12 FL OZ'') < 0x80"
    "\<not> white_space (last ''Klarbrunn 12-PK 12 FL OZ'')"
    by (simp_all add: white_space_def byte_def)
  note t = R5_ceiling_of_fifth [of "Items target_receipt" P 0 target_receipt
      "\<lparr>ShortDescription = ''Mountain Dew 12PK'', Price = ''6.49''\<rparr>" "[]"
      "''   ''" "''  ''" "''Klarbrunn 12-PK 12 FL OZ''"]
  have a: "itemsLoop P (Items target_receipt) 0
             = 0 + word_of_int (sum_list (map rule5_spec (Items target_receipt)))"
    using t 1 by blast
  have b: "CalculatePoints P target_receipt
          = R1 P target_receipt + R2 target_receipt + R3 P target_receipt + R4 target_receipt
            + word_of_int (sum_list (map rule5_spec (Items target_receipt)))
            + R6 target_receipt + R7 target_receipt"
    using t validate_target 2 by blast
  have c: "TrimSpace (''   '' @ ''Klarbrunn 12-PK 12 FL OZ'' @ ''  '') = ''Klarbrunn 12-PK 12 FL OZ''"
    using t 4 by blast
  have n: "\<not> (length (TrimSpace (ShortDescription
                \<lparr>ShortDescription = ''Mountain Dew 12PK'', Price = ''6.49''\<rparr>)) mod 3 = 0
            \<and> 0 < length (TrimSpace (ShortDescription
                \<lparr>ShortDescription = ''Mountain Dew 12PK'', Price = ''6.49''\<rparr>)))"
    by (simp add: TrimSpace_descriptions)
  have "itemsLoop P (\<lparr>ShortDescription = ''Mountain Dew 12PK'', Price = ''6.49''\<rparr> # []) 0
          = itemsLoop P [] 0"
    using t n by blast
  then have d: "itemsLoop P (\<lparr>ShortDescription = ''Mountain Dew 12PK'', Price = ''6.49''\<rparr> # []) 0 = 0"
    by (simp only: itemsLoop.simps)
  show "list_all (\<lambda>item. IsValidCurrencyFormat (Price item) \<and> cents_of (Price item) < 10 ^ 15)
          (Items target_receipt)
     \<and> map rule5_spec (Items target_receipt) = [0, 3, 0, 0, 3]
     \<and> itemsLoop P (Items target_receipt) 0 = 6
     \<and> validateReceipt target_receipt = None
     \<and> CalculatePoints P target_receipt
         = R1 P target_receipt + R2 target_receipt + R3 P target_receipt + R4 target_receipt
           + 6 + R6 target_receipt + R7 target_receipt
     \<and> length (TrimSpace ''Mountain Dew 12PK'') = 17
     \<and> itemsLoop P (\<lparr>ShortDescription = ''Mountain Dew 12PK'', Price = ''6.49''\<rparr> # []) 0 = 0
     \<and> list_all white_space ''   '' \<and> list_all white_space ''  ''
     \<and> TrimSpace (''   '' @ ''Klarbrunn 12-PK 12 FL OZ'' @ ''  '') = ''Klarbrunn 12-PK 12 FL OZ''"
    using 1 3 4(1,2) c d validate_target
    by (simp add: a b rule5_spec_examples)
qed

section \<open>C4: rule 7 and the window from 14:00 to 16:00\<close>

text \<open>
  C4. A purchase time that passes validation is a time of day \<open>h:m\<close> with \<open>h < 24\<close>
  and \<open>m < 60\<close>, written \<open>HH:MM\<close> or, before 10:00, \<open>H:MM\<close>; for such a receipt the
  score holds 10 for rule 7 exactly when \<open>840 < h * 60 + m < 960\<close>, and nothing for it
  otherwise. Whatever the other fields, a receipt with the time \<open>HH:MM\<close> scores 10
  more than with the time \<open>00:00\<close> exactly in that window. The bounds are exclusive: on
  the receipt of the end-to-end scenario, which scores 28 outside the window, the times
  \<open>14:00\<close> and \<open>16:00\<close> score 28, \<open>14:01\<close> and \<open>15:59\<close> score 38.
\<close>

theorem R7_strictly_between:
  "(IsValidTimeFormat (PurchaseTime r) \<longrightarrow>
      (\<exists>h m. h < 24 \<and> m < 60
         \<and> (PurchaseTime r = clock_string h m
              \<or> (h < 10 \<and> PurchaseTime r = short_clock_string h m))
         \<and> (isTimeBetween2And4PM (PurchaseTime r)
              \<longleftrightarrow> 840 < h * 60 + m \<and> h * 60 + m < 960)
         \<and> CalculatePoints P r
             = R1 P r + R2 r + R3 P r + R4 r + sum_list (map (R5 P) (Items r)) + R6 r
               + (if 840 < h * 60 + m \<and> h * 60 + m < 960 then 10 else 0)))
   \<and> (h < 24 \<and> m < 60
        \<and> (s = clock_string h m \<or> (h < 10 \<and> s = short_clock_string h m)) \<longrightarrow>
        IsValidTimeFormat s
        \<and> CalculatePoints P (r\<lparr>PurchaseTime := s\<rparr>)
            = CalculatePoints P (r\<lparr>PurchaseTime := ''00:00''\<rparr>)
              + (if 840 < h * 60 + m \<and> h * 60 + m < 960 then 10 else 0))
   \<and> \<not> isTimeBetween2And4PM ''14:00'' \<and> \<not> isTimeBetween2And4PM ''16:00''
   \<and> isTimeBetween2And4PM ''14:01'' \<and> isTimeBetween2And4PM ''15:59''
   \<and> CalculatePoints P (target_receipt\<lparr>PurchaseTime := ''14:00''\<rparr>) = 28
   \<and> CalculatePoints P (target_receipt\<lparr>PurchaseTime := ''16:00''\<rparr>) = 28
   \<and> CalculatePoints P (target_receipt\<lparr>PurchaseTime := ''14:01''\<rparr>) = 38
   \<and> CalculatePoints P (target_receipt\<lparr>PurchaseTime := ''15:59''\<rparr>) = 38"
proof (intro conjI impI)
  assume "IsValidTimeFormat (PurchaseTime r)"
  then obtain h m where hm: "h < 24" "m < 60"
    and s: "PurchaseTime r = clock_string h m
              \<or> (h < 10 \<and> PurchaseTime r = short_clock_string h m)"
    unfolding IsValidTimeFormat_iff short_clock_string_def by blast
  have w: "isTimeBetween2And4PM (PurchaseTime r) \<longleftrightarrow> 840 < h * 60 + m \<and> h * 60 + m < 960"
    using hm s by (rule isTimeBetween2And4PM_clock)
  then have "CalculatePoints P r
             = R1 P r + R2 r + R3 P r + R4 r + sum_list (map (R5 P) (Items r)) + R6 r
               + (if 840 < h * 60 + m \<and> h * 60 + m < 960 then 10 else 0)"
    by (simp add: CalculatePoints_def Let_def itemsLoop_sum R1_def R2_def R3_def R4_def R6_def)
  with hm s w
  show "\<exists>h m. h < 24 \<and> m < 60
         \<and> (PurchaseTime r = clock_string h m
              \<or> (h < 10 \<and> PurchaseTime r = short_clock_string h m))
         \<and> (isTimeBetween2And4PM (PurchaseTime r)
              \<longleftrightarrow> 840 < h * 60 + m \<and> h * 60 + m < 960)
         \<and> CalculatePoints P r
             = R1 P r + R2 r + R3 P r + R4 r + sum_list (map (R5 P) (Items r)) + R6 r
               + (if 840 < h * 60 + m \<and> h * 60 + m < 960 then 10 else 0)"
    by blast
next
  assume a: "h < 24 \<and> m < 60
        \<and> (s = clock_string h m \<or> (h < 10 \<and> s = short_clock_string h m))"
  then show "IsValidTimeFormat s"
    unfolding IsValidTimeFormat_iff short_clock_string_def by blast
  from a have "isTimeBetween2And4PM s \<longleftrightarrow> 840 < h * 60 + m \<and> h * 60 + m < 960"
    by (intro isTimeBetween2And4PM_clock) simp_all
  then show "CalculatePoints P (r\<lparr>PurchaseTime := s\<rparr>)
            = CalculatePoints P (r\<lparr>PurchaseTime := ''00:00''\<rparr>)
              + (if 840 < h * 60 + m \<and> h * 60 + m < 960 then 10 else 0)"
    by (simp add: CalculatePoints_def Let_def itemsLoop_sum time_examples)
next
  show "\<not> isTimeBetween2And4PM ''14:00''" "\<not> isTimeBetween2And4PM ''16:00''"
    "isTimeBetween2And4PM ''14:01''" "isTimeBetween2And4PM ''15:59''"
    by (simp_all add: isTimeBetween2And4PM_def Parse_clock_def getnum_def isDigit_def
        skip_def digit_def byte_def)
  show "CalculatePoints P (target_receipt\<lparr>PurchaseTime := ''14:00''\<rparr>) = 28"
    "CalculatePoints P (target_receipt\<lparr>PurchaseTime := ''16:00''\<rparr>) = 28"
    "CalculatePoints P (target_receipt\<lparr>PurchaseTime := ''14:01''\<rparr>) = 38"
    "CalculatePoints P (target_receipt\<lparr>PurchaseTime := ''15:59''\<rparr>) = 38"
    by (simp_all add: CalculatePoints_def Let_def itemsLoop_sum target_receipt_def
        count_Target R3_35_35 date_2022_01_01 time_examples isRoundDollarAmount_def digit_def
        byte_def R5_exact valid_examples cents_examples TrimSpace_descriptions)
qed

text \<open>
  The theorem at the receipt of the end-to-end scenario, whose time is \<open>13:01\<close>, and
  at the times \<open>15:30\<close> and \<open>9:05\<close>, for every platform.
\<close>

theorem R7_strictly_between_witness:
  "\<forall>P. IsValidTimeFormat (PurchaseTime target_receipt)
     \<and> PurchaseTime target_receipt = clock_string 13 1
     \<and> \<not> isTimeBetween2And4PM (PurchaseTime target_receipt)
     \<and> CalculatePoints P target_receipt = 28
     \<and> clock_string 15 30 = ''15:30'' \<and> IsValidTimeFormat ''15:30''
     \<and> CalculatePoints P (target_receipt\<lparr>PurchaseTime := ''15:30''\<rparr>) = 38
     \<and> short_clock_string 9 5 = ''9:05'' \<and> IsValidTimeFormat ''9:05''
     \<and> CalculatePoints P (target_receipt\<lparr>PurchaseTime := ''9:05''\<rparr>) = 28"
proof
  fix P
  have v: "IsValidTimeFormat (PurchaseTime target_receipt)"
    by (simp add: IsValidTimeFormat_def target_receipt_def Parse_clock_def getnum_def
        isDigit_def digit_def byte_def skip_def)
  have c: "PurchaseTime target_receipt = clock_string 13 1" "clock_string 15 30 = ''15:30''"
    "short_clock_string 9 5 = ''9:05''"
    by (simp_all add: target_receipt_def clock_string_def short_clock_string_def two_digits_def
        char_of_digits)
  have n: "\<not> isTimeBetween2And4PM (PurchaseTime target_receipt)"
    by (simp add: target_receipt_def time_13_01)
  have z: "CalculatePoints P (target_receipt\<lparr>PurchaseTime := ''00:00''\<rparr>) = 28"
    by (simp add: CalculatePoints_sum R1_def R2_def R3_def R4_def R6_def R7_def target_receipt_def
      count_Target R3_35_35 date_2022_01_01 time_examples isRoundDollarAmount_def digit_def byte_def
      R5_exact valid_examples cents_examples TrimSpace_descriptions)
  from R7_strictly_between [of target_receipt P 15 30 "''15:30''"] c
  have 1: "IsValidTimeFormat ''15:30''"
    and 2: "CalculatePoints P (target_receipt\<lparr>PurchaseTime := ''15:30''\<rparr>)
              = CalculatePoints P (target_receipt\<lparr>PurchaseTime := ''00:00''\<rparr>) + 10"
    by simp_all
  from R7_strictly_between [of target_receipt P 9 5 "''9:05''"] c
  have 3: "IsValidTimeFormat ''9:05''"
    and 4: "CalculatePoints P (target_receipt\<lparr>PurchaseTime := ''9:05''\<rparr>)
              = CalculatePoints P (target_receipt\<lparr>PurchaseTime := ''00:00''\<rparr>)"
    by simp_all
  show "IsValidTimeFormat (PurchaseTime target_receipt)
     \<and> PurchaseTime target_receipt = clock_string 13 1
     \<and> \<not> isTimeBetween2And4PM (PurchaseTime target_receipt)
     \<and> CalculatePoints P target_receipt = 28
     \<and> clock_string 15 30 = ''15:30'' \<and> IsValidTimeFormat ''15:30''
     \<and> CalculatePoints P (target_receipt\<lparr>PurchaseTime := ''15:30''\<rparr>) = 38
     \<and> short_clock_string 9 5 = ''9:05'' \<and> IsValidTimeFormat ''9:05''
     \<and> CalculatePoints P (target_receipt\<lparr>PurchaseTime := ''9:05''\<rparr>) = 28"
    using v c n 1 3 by (simp add: 2 4 z target_score)
qed

section \<open>C5: the currency format and negative totals\<close>

text \<open>
  C5, as stated, has the total \<open>-5.00\<close> pass format validation. It does not: the
  pattern starts with a digit.
\<close>

theorem negative_total_rejected: "\<not> IsValidCurrencyFormat ''-5.00''"
  by (simp add: IsValidCurrencyFormat_def digit_def byte_def)


text \<open>
  C5, amended. Validation has no check of the range of an amount, but a string is in
  currency format exactly when it is one or more ASCII digits, a point and two ASCII
  digits; so it holds no sign, and a receipt whose total is \<open>-5.00\<close> is rejected with
  the invalid-format error of field \<open>total\<close> (the other fields being valid).
\<close>

theorem currency_format_excludes_sign:
  "(IsValidCurrencyFormat s \<longleftrightarrow>
      (\<exists>ds c1 c2. s = ds @ [CHR ''.'', c1, c2] \<and> ds \<noteq> [] \<and> list_all digit ds
         \<and> digit c1 \<and> digit c2))
   \<and> (IsValidCurrencyFormat s \<longrightarrow> CHR ''-'' \<notin> set s)
   \<and> validateReceipt (target_receipt\<lparr>Total := ''-5.00''\<rparr>)
       = Some (NewInvalidFormatError ''total'' ''-5.00'')"
proof (intro conjI impI)
  show "IsValidCurrencyFormat s \<longleftrightarrow>
      (\<exists>ds c1 c2. s = ds @ [CHR ''.'', c1, c2] \<and> ds \<noteq> [] \<and> list_all digit ds
         \<and> digit c1 \<and> digit c2)"
    by (rule currency_format_iff)
next
  assume "IsValidCurrencyFormat s"
  then obtain ds c1 c2 where s: "s = ds @ [CHR ''.'', c1, c2]"
    and all: "list_all digit ds" and d: "digit c1" "digit c2"
    unfolding currency_format_iff by blast
  show "CHR ''-'' \<notin> set s"
    using all d minus_not_digit by (auto simp: s list_all_iff)
next
  show "validateReceipt (target_receipt\<lparr>Total := ''-5.00''\<rparr>)
       = Some (NewInvalidFormatError ''total'' ''-5.00'')"
    by (simp add: validateReceipt_def target_receipt_def IsValidDateFormat_def IsValidTimeFormat_def
      IsValidCurrencyFormat_def Parse_date_def Parse_clock_def getnum_def isDigit_def atoi_def
      skip_def digit_def byte_def digits_value_def daysIn_def isLeap_def)
qed


text \<open>The theorem at the total of the end-to-end scenario.\<close>

theorem currency_format_excludes_sign_witness:
  "IsValidCurrencyFormat ''35.35'' \<and> CHR ''-'' \<notin> set ''35.35''"
proof -
  have v: "IsValidCurrencyFormat ''35.35''"
    by (simp add: IsValidCurrencyFormat_def digit_def byte_def)
  with currency_format_excludes_sign [of "''35.35''"] show ?thesis by blast
qed

section \<open>C6: the order of the checks of validation\<close>

text \<open>
  C6. Validation answers success or the error of the first failing check, in the order
  of the specification (\<open>validateReceipt_first_failure\<close>); the dates it accepts are the
  calendar dates written \<open>YYYY-MM-DD\<close> (\<open>IsValidDateFormat_iff\<close>). But the check of the
  purchase time does not hold the time to \<open>HH:MM\<close>: an hour of one digit passes too
  (\<open>IsValidTimeFormat_iff\<close>). The receipt of the end-to-end scenario with the time
  \<open>9:05\<close> passes validation.
\<close>

theorem single_digit_hour_passes:
  "Parse_clock ''9:05'' = Some \<lparr>Year = 0, Month = 1, Day = 1, Hour = 9, Minute = 5\<rparr>
   \<and> IsValidTimeFormat ''9:05''
   \<and> validateReceipt (target_receipt\<lparr>PurchaseTime := ''9:05''\<rparr>) = None"
  by (simp add: validateReceipt_def target_receipt_def IsValidDateFormat_def IsValidTimeFormat_def
      IsValidCurrencyFormat_def Parse_date_def Parse_clock_def getnum_def isDigit_def atoi_def
      skip_def digit_def byte_def digits_value_def daysIn_def isLeap_def)

section \<open>C7: the score as the sum of the seven rules\<close>

text \<open>
  C7, as stated, has the score of every valid receipt non-negative. The receipt
  \<open>overflow_receipt\<close> passes validation; each of its two items adds
  \<open>8000000000000000000\<close>, and the 64-bit sum wraps around to a negative score, on
  every platform.
\<close>

theorem score_negative_on_overflow:
  "\<forall>P. validateReceipt overflow_receipt = None
     \<and> sint (CalculatePoints P overflow_receipt) = - 2446744073709551599"
  by (simp add: validate_overflow overflow_score)

text \<open>
  C7, amended. For every receipt the score is the sum of the seven rules in 64-bit
  wrap-around arithmetic, and it is a function of the retailer, date, time, items and
  total alone (the identifier and the stored points do not enter). For a receipt that
  passes validation, with every price below \<open>10 ^ 13\<close> (\<open>10 ^ 15\<close> cents), fewer
  than \<open>2 ^ 20\<close> items and a retailer shorter than \<open>2 ^ 32\<close> bytes, nothing wraps:
  the score is non-negative and equals the sum of the contributions as integers.
\<close>

theorem score_is_sum_of_rules:
  "CalculatePoints P r
     = R1 P r + R2 r + R3 P r + R4 r + sum_list (map (R5 P) (Items r)) + R6 r + R7 r
   \<and> CalculatePoints P (r\<lparr>ID := i, Points := q\<rparr>) = CalculatePoints P r
   \<and> (validateReceipt r = None
        \<and> list_all (\<lambda>item. cents_of (Price item) < 10 ^ 15) (Items r)
        \<and> length (Items r) < 2 ^ 20 \<and> length (Retailer r) < 2 ^ 32 \<longrightarrow>
        0 \<le> sint (CalculatePoints P r)
        \<and> sint (CalculatePoints P r)
            = sint (R1 P r) + sint (R2 r) + sint (R3 P r) + sint (R4 r)
              + sum_list (map (\<lambda>item. sint (R5 P item)) (Items r)) + sint (R6 r) + sint (R7 r))"
proof (intro conjI impI)
  show "CalculatePoints P r
     = R1 P r + R2 r + R3 P r + R4 r + sum_list (map (R5 P) (Items r)) + R6 r + R7 r"
    by (rule CalculatePoints_sum)
  show "CalculatePoints P (r\<lparr>ID := i, Points := q\<rparr>) = CalculatePoints P r"
    by (rule CalculatePoints_fields)
next
  assume h: "validateReceipt r = None
        \<and> list_all (\<lambda>item. cents_of (Price item) < 10 ^ 15) (Items r)
        \<and> length (Items r) < 2 ^ 20 \<and> length (Retailer r) < 2 ^ 32"
  then have s: "sint (CalculatePoints P r)
           = int (countAlphanumeric P (Retailer r)) + sint (R2 r) + sint (R3 P r)
             + int (length (Items r) div 2 * 5)
             + sum_list (map (\<lambda>item. sint (R5 P item)) (Items r)) + sint (R6 r) + sint (R7 r)"
    and n: "0 \<le> sint (CalculatePoints P r)"
    using score_no_overflow [of r P] by simp_all
  show "0 \<le> sint (CalculatePoints P r)" by (rule n)
  have "countAlphanumeric P (Retailer r) < 2 ^ 63"
    using countAlphanumeric_le [of P "Retailer r"] h by simp
  then have 1: "sint (R1 P r) = int (countAlphanumeric P (Retailer r))"
    unfolding R1_def by (rule sint_word_of_nat64)
  have "length (Items r) div 2 \<le> length (Items r)" by simp
  moreover have "length (Items r) < 1048576" using h by simp
  ultimately have "length (Items r) div 2 * 5 < 2 ^ 63" by simp
  then have 4: "sint (R4 r) = int (length (Items r) div 2 * 5)"
    unfolding R4_def by (rule sint_word_of_nat64)
  show "sint (CalculatePoints P r)
            = sint (R1 P r) + sint (R2 r) + sint (R3 P r) + sint (R4 r)
              + sum_list (map (\<lambda>item. sint (R5 P item)) (Items r)) + sint (R6 r) + sint (R7 r)"
    by (simp only: s 1 4)
qed

text \<open>
  The theorem at the receipt of the end-to-end scenario, whose score is 28, for every
  platform.
\<close>

theorem score_is_sum_of_rules_witness:
  "\<forall>P. validateReceipt target_receipt = None
     \<and> list_all (\<lambda>item. cents_of (Price item) < 10 ^ 15) (Items target_receipt)
     \<and> length (Items target_receipt) < 2 ^ 20 \<and> length (Retailer target_receipt) < 2 ^ 32
     \<and> 0 \<le> sint (CalculatePoints P target_receipt)
     \<and> CalculatePoints P target_receipt = 28"
proof
  fix P
  have 1: "list_all (\<lambda>item. cents_of (Price item) < 10 ^ 15) (Items target_receipt)"
    by (simp add: target_receipt_def cents_examples)
  have 2: "length (Items target_receipt) < 2 ^ 20" "length (Retailer target_receipt) < 2 ^ 32"
    by (simp_all add: target_receipt_def)
  have "0 \<le> sint (CalculatePoints P target_receipt)"
    using score_is_sum_of_rules [of P target_receipt] validate_target 1 2
    by blast
  then show "validateReceipt target_receipt = None
     \<and> list_all (\<lambda>item. cents_of (Price item) < 10 ^ 15) (Items target_receipt)
     \<and> length (Items target_receipt) < 2 ^ 20 \<and> length (Retailer target_receipt) < 2 ^ 32
     \<and> 0 \<le> sint (CalculatePoints P target_receipt)
     \<and> CalculatePoints P target_receipt = 28"
    using validate_target 1 2 target_score [of P] by simp
qed

section \<open>C8: the round trip through the store\<close>

text \<open>
  C8. Looking up the identifier that \<open>AddReceipt\<close> returns finds the receipt that was
  stored, with that identifier; and when a receipt passes validation, \<open>ProcessReceipt\<close>
  answers the identifier and \<open>GetPoints\<close> on the resulting store answers the score
  computed by \<open>CalculatePoints\<close> at process time.
\<close>

theorem store_round_trip:
  "GetReceipt (fst (AddReceipt uuid rs receipt)) (snd (AddReceipt uuid rs receipt))
     = Some (receipt\<lparr>ID := uuid\<rparr>)
   \<and> (validateReceipt receipt = None \<longrightarrow>
        snd (ProcessReceipt P uuid rs receipt) = Inr uuid
        \<and> GetPoints (fst (ProcessReceipt P uuid rs receipt)) uuid
            = Some (CalculatePoints P receipt))"
  by (simp add: GetReceipt_def AddReceipt_def ProcessReceipt_def GetPoints_def Let_def)


text \<open>
  The theorem at the receipt of the end-to-end scenario, stored in the empty store, for
  every platform.
\<close>

theorem store_round_trip_witness:
  "\<forall>P. validateReceipt target_receipt = None
     \<and> snd (ProcessReceipt P ''7fb1377b-b223-49d9-a31a-5a02701dd310''
              NewReceiptStore target_receipt) = Inr ''7fb1377b-b223-49d9-a31a-5a02701dd310''
     \<and> GetPoints (fst (ProcessReceipt P ''7fb1377b-b223-49d9-a31a-5a02701dd310''
              NewReceiptStore target_receipt)) ''7fb1377b-b223-49d9-a31a-5a02701dd310''
         = Some 28"
proof
  fix P
  from store_round_trip [of "''7fb1377b-b223-49d9-a31a-5a02701dd310''" NewReceiptStore
      target_receipt P] validate_target
  show "validateReceipt target_receipt = None
     \<and> snd (ProcessReceipt P ''7fb1377b-b223-49d9-a31a-5a02701dd310''
              NewReceiptStore target_receipt) = Inr ''7fb1377b-b223-49d9-a31a-5a02701dd310''
     \<and> GetPoints (fst (ProcessReceipt P ''7fb1377b-b223-49d9-a31a-5a02701dd310''
              NewReceiptStore target_receipt)) ''7fb1377b-b223-49d9-a31a-5a02701dd310''
         = Some 28"
    by (simp add: target_score)
qed

section \<open>C9: the engine on receipts that were not validated\<close>

text \<open>
  C9. \<open>CalculatePoints\<close> has a result for every receipt, validated or not: the model
  has no failure to return, since the source has no operation that can panic (no
  indexing, no division by a variable, constant patterns), and its two loops terminate
  (\<open>itemsLoop\<close> descends the list, \<open>countAlphanumeric\<close> consumes at least one byte per
  rune). The result is always the sum of the seven rules. A price, a total, a date or a
  time that does not parse makes its rule add 0, and the other rules still count: when
  nothing parses, the score is \<open>R1 + R2 + R4\<close>.
\<close>

theorem unparsable_fields_add_nothing:
  "CalculatePoints P r
     = R1 P r + R2 r + R3 P r + R4 r + sum_list (map (R5 P) (Items r)) + R6 r + R7 r
   \<and> (ParseFloat P (Price item) = None \<longrightarrow> R5 P item = 0)
   \<and> (Parse_date (PurchaseDate r) = None \<longrightarrow> R6 r = 0)
   \<and> (Parse_clock (PurchaseTime r) = None \<longrightarrow> R7 r = 0)
   \<and> (ParseFloat P (Total r) = None \<longrightarrow> R3 P r = 0)
   \<and> (list_all (\<lambda>item. ParseFloat P (Price item) = None) (Items r)
        \<and> Parse_date (PurchaseDate r) = None \<and> Parse_clock (PurchaseTime r) = None
        \<and> ParseFloat P (Total r) = None \<longrightarrow>
        CalculatePoints P r = R1 P r + R2 r + R4 r)"
proof (intro conjI impI)
  show "CalculatePoints P r
     = R1 P r + R2 r + R3 P r + R4 r + sum_list (map (R5 P) (Items r)) + R6 r + R7 r"
    by (rule CalculatePoints_sum)
next
  assume "ParseFloat P (Price item) = None"
  then show "R5 P item = 0" by (simp add: R5_def Let_def)
next
  assume "Parse_date (PurchaseDate r) = None"
  then show "R6 r = 0" by (simp add: R6_def isDayOdd_def)
next
  assume "Parse_clock (PurchaseTime r) = None"
  then show "R7 r = 0" by (simp add: R7_def isTimeBetween2And4PM_def)
next
  assume "ParseFloat P (Total r) = None"
  then show "R3 P r = 0" by (simp add: R3_def isMultipleOf25Cents_def)
next
  assume h: "list_all (\<lambda>item. ParseFloat P (Price item) = None) (Items r)
        \<and> Parse_date (PurchaseDate r) = None \<and> Parse_clock (PurchaseTime r) = None
        \<and> ParseFloat P (Total r) = None"
  then have "list_all (\<lambda>item. R5 P item = 0) (Items r)"
    by (auto simp: list_all_iff R5_def Let_def)
  then have "sum_list (map (R5 P) (Items r)) = 0"
    by (rule sum_list_all_zero)
  with h show "CalculatePoints P r = R1 P r + R2 r + R4 r"
    by (simp add: CalculatePoints_sum R3_def R6_def R7_def isMultipleOf25Cents_def isDayOdd_def
        isTimeBetween2And4PM_def)
qed

text \<open>
  The theorem at a receipt that fails validation, for every platform: the first price
  and the total are empty, the date and the time are in other formats. Its score is
  14 + 5 = 19; with the first item alone, where nothing parses, it is 14.
\<close>

theorem unparsable_fields_add_nothing_witness:
  "\<forall>P. validateReceipt unparsable_receipt \<noteq> None
   \<and> ParseFloat P (Price \<lparr>ShortDescription = ''XYZ'', Price = []\<rparr>) = None
   \<and> R5 P \<lparr>ShortDescription = ''XYZ'', Price = []\<rparr> = 0
   \<and> Parse_date (PurchaseDate unparsable_receipt) = None \<and> R6 unparsable_receipt = 0
   \<and> Parse_clock (PurchaseTime unparsable_receipt) = None \<and> R7 unparsable_receipt = 0
   \<and> ParseFloat P (Total unparsable_receipt) = None
   \<and> R3 P unparsable_receipt = 0
   \<and> CalculatePoints P unparsable_receipt = 19
   \<and> list_all (\<lambda>item. ParseFloat P (Price item) = None)
        (Items (unparsable_receipt\<lparr>Items := [\<lparr>ShortDescription = ''XYZ'', Price = []\<rparr>]\<rparr>))
   \<and> CalculatePoints P (unparsable_receipt\<lparr>Items := [\<lparr>ShortDescription = ''XYZ'', Price = []\<rparr>]\<rparr>)
       = 14"
proof
  fix P
  have p: "ParseFloat P (Price \<lparr>ShortDescription = ''XYZ'', Price = []\<rparr>) = None"
    "Parse_date (PurchaseDate unparsable_receipt) = None"
    "Parse_clock (PurchaseTime unparsable_receipt) = None"
    "ParseFloat P (Total unparsable_receipt) = None"
    by (simp_all add: unparsable_receipt_def unparsable_facts)
  have v: "validateReceipt unparsable_receipt \<noteq> None"
    by (simp add: validateReceipt_def unparsable_receipt_def)
  have g: "R5 P \<lparr>ShortDescription = ''Gatorade'', Price = ''2.25''\<rparr> = 0"
    by (simp add: R5_def TrimSpace_Gatorade)
  have s: "CalculatePoints P unparsable_receipt
      = R1 P unparsable_receipt + R2 unparsable_receipt
        + R3 P unparsable_receipt + R4 unparsable_receipt
        + sum_list (map (R5 P) (Items unparsable_receipt))
        + R6 unparsable_receipt + R7 unparsable_receipt"
    and z: "R5 P \<lparr>ShortDescription = ''XYZ'', Price = []\<rparr> = 0"
      "R6 unparsable_receipt = 0" "R7 unparsable_receipt = 0"
      "R3 P unparsable_receipt = 0"
    using unparsable_fields_add_nothing [of P unparsable_receipt
        "\<lparr>ShortDescription = ''XYZ'', Price = []\<rparr>"] p
    by simp_all
  have n: "CalculatePoints P unparsable_receipt = 19"
    unfolding s z
    by (simp add: R1_def R2_def R4_def unparsable_receipt_def z g count_MM
        isRoundDollarAmount_def)
  have a: "list_all (\<lambda>item. ParseFloat P (Price item) = None)
        (Items (unparsable_receipt\<lparr>Items := [\<lparr>ShortDescription = ''XYZ'', Price = []\<rparr>]\<rparr>))"
    by (simp add: unparsable_facts)
  have "CalculatePoints P (unparsable_receipt\<lparr>Items := [\<lparr>ShortDescription = ''XYZ'', Price = []\<rparr>]\<rparr>)
      = R1 P (unparsable_receipt\<lparr>Items := [\<lparr>ShortDescription = ''XYZ'', Price = []\<rparr>]\<rparr>)
        + R2 (unparsable_receipt\<lparr>Items := [\<lparr>ShortDescription = ''XYZ'', Price = []\<rparr>]\<rparr>)
        + R4 (unparsable_receipt\<lparr>Items := [\<lparr>ShortDescription = ''XYZ'', Price = []\<rparr>]\<rparr>)"
    using unparsable_fields_add_nothing [of P
        "unparsable_receipt\<lparr>Items := [\<lparr>ShortDescription = ''XYZ'', Price = []\<rparr>]\<rparr>"
        "\<lparr>ShortDescription = ''XYZ'', Price = []\<rparr>"] a p
    by (simp add: unparsable_receipt_def)
  then have b: "CalculatePoints P
      (unparsable_receipt\<lparr>Items := [\<lparr>ShortDescription = ''XYZ'', Price = []\<rparr>]\<rparr>) = 14"
    by (simp add: R1_def R2_def R4_def unparsable_receipt_def count_MM isRoundDollarAmount_def)
  with p v z a n show "validateReceipt unparsable_receipt \<noteq> None
   \<and> ParseFloat P (Price \<lparr>ShortDescription = ''XYZ'', Price = []\<rparr>) = None
   \<and> R5 P \<lparr>ShortDescription = ''XYZ'', Price = []\<rparr> = 0
   \<and> Parse_date (PurchaseDate unparsable_receipt) = None \<and> R6 unparsable_receipt = 0
   \<and> Parse_clock (PurchaseTime unparsable_receipt) = None \<and> R7 unparsable_receipt = 0
   \<and> ParseFloat P (Total unparsable_receipt) = None
   \<and> R3 P unparsable_receipt = 0
   \<and> CalculatePoints P unparsable_receipt = 19
   \<and> list_all (\<lambda>item. ParseFloat P (Price item) = None)
        (Items (unparsable_receipt\<lparr>Items := [\<lparr>ShortDescription = ''XYZ'', Price = []\<rparr>]\<rparr>))
   \<and> CalculatePoints P (unparsable_receipt\<lparr>Items := [\<lparr>ShortDescription = ''XYZ'', Price = []\<rparr>]\<rparr>)
       = 14"
    by simp
qed

section \<open>C10: bytes in rule 5, code points in rule 1\<close>

text \<open>
  C10. Rule 1 counts code points: on the UTF-8 encoding of any sequence of Unicode
  scalar values, \<open>countAlphanumeric\<close> is the number of those that are letters or digits,
  whatever their width in bytes, and the score holds that number for rule 1. Rule 5
  tests the length in bytes of the trimmed description: an item changes the running
  total of the loop only if that length is positive and a multiple of 3. So the
  description \<open>U+00EA a\<close> (2 code points, 3 bytes) adds the 2 points of the price
  \<open>10.00\<close>, also with a space or a no-break space around it, which trimming removes;
  and \<open>a b U+00EA\<close> (3 code points, 4 bytes) adds nothing, while as a retailer it
  counts 3: the two bytes of \<open>U+00EA\<close> count once. On the receipt of the
  end-to-end scenario, which scores 28 with 6 for the retailer, that retailer scores 25;
  and with a single item, of the one or the other description, the receipt scores 14 or
  12.
\<close>

theorem R5_counts_bytes_R1_counts_code_points:
  "(list_all scalar_value cps \<longrightarrow>
      countAlphanumeric P (utf8 cps)
        = length (filter (\<lambda>c. IsLetter P c \<or> IsDigit P c) cps)
      \<and> CalculatePoints P (r\<lparr>Retailer := utf8 cps\<rparr>)
          = word_of_nat (length (filter (\<lambda>c. IsLetter P c \<or> IsDigit P c) cps))
            + R2 r + R3 P r + R4 r + sum_list (map (R5 P) (Items r)) + R6 r + R7 r)
   \<and> (itemsLoop P (item # rest) points \<noteq> itemsLoop P rest points \<longrightarrow>
        length (TrimSpace (ShortDescription item)) mod 3 = 0
        \<and> 0 < length (TrimSpace (ShortDescription item)))
   \<and> length (utf8 [0xEA, 0x61]) = 3
   \<and> itemsLoop P [\<lparr>ShortDescription = utf8 [0xEA, 0x61], Price = ''10.00''\<rparr>] 0 = 2
   \<and> length (utf8 [0x61, 0x62, 0xEA]) = 4
   \<and> itemsLoop P [\<lparr>ShortDescription = utf8 [0x61, 0x62, 0xEA], Price = ''10.00''\<rparr>] 0 = 0
   \<and> length (utf8 [0x20, 0xEA, 0x61]) = 4
   \<and> TrimSpace (utf8 [0x20, 0xEA, 0x61]) = utf8 [0xEA, 0x61]
   \<and> itemsLoop P [\<lparr>ShortDescription = utf8 [0x20, 0xEA, 0x61], Price = ''10.00''\<rparr>] 0 = 2
   \<and> length (utf8 [0xEA, 0x61, 0xA0]) = 5
   \<and> TrimSpace (utf8 [0xEA, 0x61, 0xA0]) = utf8 [0xEA, 0x61]
   \<and> itemsLoop P [\<lparr>ShortDescription = utf8 [0xEA, 0x61, 0xA0], Price = ''10.00''\<rparr>] 0 = 2
   \<and> length (utf8 [0xA0, 0xEA, 0x61]) = 5
   \<and> TrimSpace (utf8 [0xA0, 0xEA, 0x61]) = utf8 [0xEA, 0x61]
   \<and> itemsLoop P [\<lparr>ShortDescription = utf8 [0xA0, 0xEA, 0x61], Price = ''10.00''\<rparr>] 0 = 2
   \<and> length (utf8 [0xEA]) = 2 \<and> countAlphanumeric P (utf8 [0xEA]) = 1
   \<and> countAlphanumeric P (utf8 [0x61, 0x62, 0xEA]) = 3
   \<and> CalculatePoints P (target_receipt\<lparr>Retailer := utf8 [0x61, 0x62, 0xEA]\<rparr>) = 25
   \<and> CalculatePoints P (target_receipt\<lparr>Items :=
        [\<lparr>ShortDescription = utf8 [0xEA, 0x61], Price = ''10.00''\<rparr>]\<rparr>) = 14
   \<and> CalculatePoints P (target_receipt\<lparr>Items :=
        [\<lparr>ShortDescription = utf8 [0x61, 0x62, 0xEA], Price = ''10.00''\<rparr>]\<rparr>) = 12
   \<and> CalculatePoints P (target_receipt\<lparr>Items :=
        [\<lparr>ShortDescription = utf8 [0x20, 0xEA, 0x61], Price = ''10.00''\<rparr>]\<rparr>) = 14"
proof (intro conjI impI)
  assume c: "list_all scalar_value cps"
  then show "countAlphanumeric P (utf8 cps)
        = length (filter (\<lambda>c. IsLetter P c \<or> IsDigit P c) cps)"
    by (rule countAlphanumeric_utf8)
  then show "CalculatePoints P (r\<lparr>Retailer := utf8 cps\<rparr>)
          = word_of_nat (length (filter (\<lambda>c. IsLetter P c \<or> IsDigit P c) cps))
            + R2 r + R3 P r + R4 r + sum_list (map (R5 P) (Items r)) + R6 r + R7 r"
    by (simp add: CalculatePoints_def Let_def itemsLoop_sum R2_def R3_def R4_def R6_def R7_def)
next
  assume "itemsLoop P (item # rest) points \<noteq> itemsLoop P rest points"
  then show "length (TrimSpace (ShortDescription item)) mod 3 = 0"
    and "0 < length (TrimSpace (ShortDescription item))"
    by (auto simp: Let_def split: if_splits)
next
  show t: "TrimSpace (utf8 [0x20, 0xEA, 0x61]) = utf8 [0xEA, 0x61]"
    "TrimSpace (utf8 [0xEA, 0x61, 0xA0]) = utf8 [0xEA, 0x61]"
    "TrimSpace (utf8 [0xA0, 0xEA, 0x61]) = utf8 [0xEA, 0x61]"
    by (simp_all add: utf8_def encodeRune_def TrimSpace_def TrimLeftSpace.simps
        TrimRightSpace.simps decodeLastRune_def scanBack.simps RuneStart_def IsSpace_def
        byte_char_of Let_def)
  have l: "length (utf8 [0xEA, 0x61]) = 3" "utf8 [0xEA, 0x61] \<noteq> []"
    by (simp_all add: utf8_examples)
  show "itemsLoop P [\<lparr>ShortDescription = utf8 [0x20, 0xEA, 0x61], Price = ''10.00''\<rparr>] 0 = 2"
    "itemsLoop P [\<lparr>ShortDescription = utf8 [0xEA, 0x61, 0xA0], Price = ''10.00''\<rparr>] 0 = 2"
    "itemsLoop P [\<lparr>ShortDescription = utf8 [0xA0, 0xEA, 0x61], Price = ''10.00''\<rparr>] 0 = 2"
    using R5_exact [of "\<lparr>ShortDescription = utf8 [0x20, 0xEA, 0x61], Price = ''10.00''\<rparr>" P]
      R5_exact [of "\<lparr>ShortDescription = utf8 [0xEA, 0x61, 0xA0], Price = ''10.00''\<rparr>" P]
      R5_exact [of "\<lparr>ShortDescription = utf8 [0xA0, 0xEA, 0x61], Price = ''10.00''\<rparr>" P]
    by (simp_all add: R5_def Let_def valid_examples cents_examples t l split: option.splits)
  show "length (utf8 [0xEA]) = 2" by (simp add: utf8_def encodeRune_def)
  show "countAlphanumeric P (utf8 [0xEA]) = 1"
    by (simp add: utf8_def encodeRune_def countAlphanumeric.simps IsLetter_def IsDigit_def
        byte_char_of)
  show "countAlphanumeric P (utf8 [0x61, 0x62, 0xEA]) = 3"
    by (simp add: utf8_examples countAlphanumeric.simps IsLetter_def IsDigit_def byte_char_of)
  show "CalculatePoints P (target_receipt\<lparr>Retailer := utf8 [0x61, 0x62, 0xEA]\<rparr>) = 25"
    by (simp add: CalculatePoints_def Let_def itemsLoop_sum target_receipt_def
        count_utf8_example R3_35_35 date_2022_01_01 time_13_01 isRoundDollarAmount_def digit_def
        byte_def R5_exact valid_examples cents_examples TrimSpace_descriptions)
qed (simp_all add: utf8_trim_examples itemsLoop_utf8_examples target_score_utf8
    del: itemsLoop.simps, simp_all add: utf8_examples)

text \<open>
  The theorem at the code points \<open>U+00EA - 1\<close> (a letter, a hyphen and a digit) as
  the retailer of the receipt of the end-to-end scenario, and at an item that changes
  the running total, for every platform.
\<close>

theorem R5_counts_bytes_R1_counts_code_points_witness:
  "\<forall>P. list_all scalar_value [0xEA, 0x2D, 0x31]
     \<and> countAlphanumeric P (utf8 [0xEA, 0x2D, 0x31]) = 2
     \<and> length (utf8 [0xEA, 0x2D, 0x31]) = 4
     \<and> CalculatePoints P (target_receipt\<lparr>Retailer := utf8 [0xEA, 0x2D, 0x31]\<rparr>) = 24
     \<and> itemsLoop P (\<lparr>ShortDescription = ''Emils Cheese Pizza'', Price = ''12.25''\<rparr> # []) 0
         \<noteq> itemsLoop P [] 0
     \<and> length (TrimSpace ''Emils Cheese Pizza'') mod 3 = 0
     \<and> 0 < length (TrimSpace ''Emils Cheese Pizza'')"
proof
  fix P
  have s: "list_all scalar_value [0xEA, 0x2D, 0x31]" by (simp add: scalar_value_def)
  have l: "length (utf8 [0xEA, 0x2D, 0x31]) = 4" by (simp add: utf8_def encodeRune_def)
  have n: "itemsLoop P (\<lparr>ShortDescription = ''Emils Cheese Pizza'', Price = ''12.25''\<rparr> # []) 0
         \<noteq> itemsLoop P [] 0"
    by (simp add: itemsLoop_sum R5_exact valid_examples cents_examples TrimSpace_descriptions)
  note t = R5_counts_bytes_R1_counts_code_points [of "[0xEA, 0x2D, 0x31]" P target_receipt
      "\<lparr>ShortDescription = ''Emils Cheese Pizza'', Price = ''12.25''\<rparr>" "[]" 0]
  have a: "countAlphanumeric P (utf8 [0xEA, 0x2D, 0x31])
        = length (filter (\<lambda>c. IsLetter P c \<or> IsDigit P c) [0xEA, 0x2D, 0x31])"
    and b: "CalculatePoints P (target_receipt\<lparr>Retailer := utf8 [0xEA, 0x2D, 0x31]\<rparr>)
          = word_of_nat (length (filter (\<lambda>c. IsLetter P c \<or> IsDigit P c) [0xEA, 0x2D, 0x31]))
            + R2 target_receipt + R3 P target_receipt + R4 target_receipt
            + sum_list (map (R5 P) (Items target_receipt)) + R6 target_receipt + R7 target_receipt"
    using t s by blast+
  have c: "length (TrimSpace (ShortDescription
              \<lparr>ShortDescription = ''Emils Cheese Pizza'', Price = ''12.25''\<rparr>)) mod 3 = 0
        \<and> 0 < length (TrimSpace (ShortDescription
              \<lparr>ShortDescription = ''Emils Cheese Pizza'', Price = ''12.25''\<rparr>))"
    using t n by blast
  have f: "length (filter (\<lambda>c. IsLetter P c \<or> IsDigit P c) [0xEA, 0x2D, 0x31]) = 2"
    by (simp add: IsLetter_def IsDigit_def)
  have "CalculatePoints P (target_receipt\<lparr>Retailer := utf8 [0xEA, 0x2D, 0x31]\<rparr>) = 24"
    unfolding b f
    by (simp add: R2_def R3_def R4_def R6_def R7_def target_receipt_def
      R3_35_35 date_2022_01_01 time_13_01 isRoundDollarAmount_def digit_def byte_def
      R5_exact valid_examples cents_examples TrimSpace_descriptions)
  with s l n c a f
  show "list_all scalar_value [0xEA, 0x2D, 0x31]
     \<and> countAlphanumeric P (utf8 [0xEA, 0x2D, 0x31]) = 2
     \<and> length (utf8 [0xEA, 0x2D, 0x31]) = 4
     \<and> CalculatePoints P (target_receipt\<lparr>Retailer := utf8 [0xEA, 0x2D, 0x31]\<rparr>) = 24
     \<and> itemsLoop P (\<lparr>ShortDescription = ''Emils Cheese Pizza'', Price = ''12.25''\<rparr> # []) 0
         \<noteq> itemsLoop P [] 0
     \<and> length (TrimSpace ''Emils Cheese Pizza'') mod 3 = 0
     \<and> 0 < length (TrimSpace ''Emils Cheese Pizza'')"
    by simp
qed


end
